theory Spec2Isabelle
  imports Main "HOL-Library.Multiset"
begin

section \<open>Scope of the model\<close>

text \<open>
  The development embeds the batch RPC handler of the chat backend
  (\<^verbatim>\<open>tryHandleStatsBatch\<close>, \<^verbatim>\<open>tryHandleChatBatch\<close>, \<^verbatim>\<open>normalizeChatState\<close>,
  \<^verbatim>\<open>loadChatState\<close>, \<^verbatim>\<open>persistChatState\<close>) and the broadcast loop of the
  WebSocket server (\<^verbatim>\<open>CapnWebDurable.broadcastMessage\<close>, \<^verbatim>\<open>CapnWebDurable.sendMessage\<close>).

  Conventions of the embedding:
  \<^item> a JavaScript value is a \<open>jsval\<close>; a number is an \<open>int\<close>, standing for the double
    of that value, so only whole numbers that a double holds are represented (every
    integer up to \<open>2^53\<close> in magnitude, and beyond that the multiples of the spacing of
    the doubles). \<^verbatim>\<open>x + 1\<close> is \<open>js_inc\<close>, the addition of doubles with its rounding;
    \<^verbatim>\<open>Math.floor\<close>, \<^verbatim>\<open>Math.max\<close> and comparison are exact on whole numbers;
    \<^verbatim>\<open>String(n)\<close> is \<open>String_num\<close>, the decimal numeral, which is what JavaScript
    prints below \<open>10^21\<close> in magnitude (from there on it prints exponent notation, which
    is not modelled: the theorems that depend on the text of a number bound it by
    \<open>2^53\<close>); fractional and non-finite doubles are not represented;
  \<^item> a string is a \<open>string\<close>, one \<open>char\<close> per UTF-16 code unit below 256;
  \<^item> a plain object is an association list of its own properties in creation order; an
    assignment \<^verbatim>\<open>obj[k] = v\<close> creates or overwrites the own property, except for the
    key \<^verbatim>\<open>__proto__\<close>, which creates none; a lookup \<^verbatim>\<open>obj[k]\<close> is an own-property
    lookup (members inherited from the prototype are not found);
  \<^item> \<^verbatim>\<open>JSON.parse\<close> of the request lines is a parameter \<open>parse\<close> (\<open>None\<close> when it
    throws); the storage entry \<^verbatim>\<open>chatState\<close> holds the document as a value, so
    \<^verbatim>\<open>JSON.stringify\<close> followed by \<^verbatim>\<open>JSON.parse\<close> is the identity on it;
  \<^item> \<^verbatim>\<open>Date.now()\<close> is a parameter \<open>now\<close>, read once per request;
  \<^item> storage reads and writes do not fail; \<^verbatim>\<open>console.log\<close> is omitted.
\<close>

section \<open>JavaScript values and strings\<close>

datatype jsval =
    JUndefined
  | JNull
  | JBool bool
  | JNum int
  | JStr string
  | JArr "jsval list"
  | JObj "(string \<times> jsval) list"

text \<open>\<^verbatim>\<open>xs[i]\<close> on an array: \<^verbatim>\<open>undefined\<close> out of range.\<close>

definition js_index :: "jsval list \<Rightarrow> nat \<Rightarrow> jsval" where
  "js_index xs i = (if i < length xs then xs ! i else JUndefined)"

text \<open>\<^verbatim>\<open>value && typeof value === "object"\<close>: objects and arrays, not \<^verbatim>\<open>null\<close>.\<close>

fun isObject :: "jsval \<Rightarrow> bool" where
  "isObject (JArr _) = True"
| "isObject (JObj _) = True"
| "isObject _ = False"

text \<open>\<^verbatim>\<open>String(n)\<close> for an integer: its decimal digits, with a sign when negative.\<close>

definition digitChar :: "int \<Rightarrow> char" where
  "digitChar d = ''0123456789'' ! nat d"

function decimal :: "int \<Rightarrow> string" where
  "decimal n = (if n < 10 then [digitChar n] else decimal (n div 10) @ [digitChar (n mod 10)])"
  by pat_completeness auto
termination
  by (relation "measure nat") auto

declare decimal.simps [simp del]

definition String_num :: "int \<Rightarrow> string" where
  "String_num i = (if i < 0 then CHR ''-'' # decimal (- i) else decimal i)"

text \<open>
  \<^verbatim>\<open>x + 1\<close> and \<^verbatim>\<open>x += 1\<close> on a whole number that a double holds. Up to \<open>2^53\<close> in
  magnitude the sum is exact, except that \<open>2^53 + 1\<close> is not a double and rounds back to
  \<open>2^53\<close>. Between \<open>2^53\<close> and \<open>2^54\<close> the doubles are the even numbers, and \<open>x + 1\<close>
  lies half way between \<open>x\<close> and \<open>x + 2\<close>: it rounds to the one with the even significand,
  the multiple of 4. From \<open>2^54\<close> on the neighbours are at least 4 apart and the sum
  rounds to \<open>x\<close>.
\<close>

definition js_inc :: "int \<Rightarrow> int" where
  "js_inc x = (if - (2 ^ 53) \<le> x \<and> x < 2 ^ 53 then x + 1
               else if 2 ^ 54 \<le> \<bar>x\<bar> then x
               else if x mod 4 = 0 then x else x + 2)"

text \<open>Reading a decimal numeral back; used for the order of integer-like keys.\<close>

definition isDigit :: "char \<Rightarrow> bool" where
  "isDigit c = (c \<in> set ''0123456789'')"

definition digitVal :: "char \<Rightarrow> int" where
  "digitVal c = (case map_of (zip ''0123456789'' [0, 1, 2, 3, 4, 5, 6, 7, 8, 9]) c of
                   Some d \<Rightarrow> d | None \<Rightarrow> 0)"

definition decToInt :: "string \<Rightarrow> int" where
  "decToInt s = foldl (\<lambda>acc c. 10 * acc + digitVal c) 0 s"

text \<open>
  An array index in the sense of the own-property order: the canonical decimal numeral of
  an integer between 0 and \<open>2^32 - 2\<close>.
\<close>

definition isArrayIndex :: "string \<Rightarrow> bool" where
  "isArrayIndex k = (k \<noteq> [] \<and> list_all isDigit k \<and> (k = ''0'' \<or> hd k \<noteq> CHR ''0'')
     \<and> decToInt k < 4294967295)"

text \<open>
  The order in which \<^verbatim>\<open>Object.entries\<close>, \<^verbatim>\<open>Object.keys\<close> and \<^verbatim>\<open>JSON.stringify\<close>
  enumerate the own properties of an object: array indices first, ascending, then the
  other keys in creation order.
\<close>

definition js_order :: "(string \<times> 'a) list \<Rightarrow> (string \<times> 'a) list" where
  "js_order kvs = sort_key (\<lambda>(k, v). decToInt k) (filter (\<lambda>(k, v). isArrayIndex k) kvs)
     @ filter (\<lambda>(k, v). \<not> isArrayIndex k) kvs"

text \<open>
  \<^verbatim>\<open>obj[k] = v\<close> on a plain object: overwrite the own property in place, or create it at
  the end. The key \<^verbatim>\<open>__proto__\<close> is the accessor inherited from \<^verbatim>\<open>Object.prototype\<close>:
  assigning to it sets the prototype (when \<open>v\<close> is an object) or does nothing, and the
  own properties stay as they are.
\<close>

fun obj_put :: "string \<Rightarrow> 'a \<Rightarrow> (string \<times> 'a) list \<Rightarrow> (string \<times> 'a) list" where
  "obj_put k v [] = [(k, v)]"
| "obj_put k v ((k', v') # kvs) = (if k = k' then (k, v) # kvs else (k', v') # obj_put k v kvs)"

definition obj_set :: "string \<Rightarrow> 'a \<Rightarrow> (string \<times> 'a) list \<Rightarrow> (string \<times> 'a) list" where
  "obj_set k v kvs = (if k = ''__proto__'' then kvs else obj_put k v kvs)"

text \<open>\<^verbatim>\<open>delete obj[k]\<close>.\<close>

definition obj_delete :: "string \<Rightarrow> (string \<times> 'a) list \<Rightarrow> (string \<times> 'a) list" where
  "obj_delete k kvs = filter (\<lambda>(k', v). k' \<noteq> k) kvs"

text \<open>\<^verbatim>\<open>source.field\<close> on a parsed JSON value.\<close>

definition js_prop :: "jsval \<Rightarrow> string \<Rightarrow> jsval" where
  "js_prop v k = (case v of
      JObj kvs \<Rightarrow> (case map_of kvs k of Some x \<Rightarrow> x | None \<Rightarrow> JUndefined)
    | _ \<Rightarrow> JUndefined)"

text \<open>\<^verbatim>\<open>Object.entries(value)\<close> on a parsed JSON object or array.\<close>

definition Object_entries :: "jsval \<Rightarrow> (string \<times> jsval) list" where
  "Object_entries v = (case v of
      JObj kvs \<Rightarrow> js_order kvs
    | JArr xs \<Rightarrow> zip (map (\<lambda>i. String_num (int i)) [0..<length xs]) xs
    | _ \<Rightarrow> [])"

text \<open>
  \<^verbatim>\<open>payload.split("\n")\<close>, \<^verbatim>\<open>line.trim()\<close> and the filter on non-empty lines.
  The white space of \<^verbatim>\<open>trim\<close> below code unit 256: TAB, LF, VT, FF, CR, SP, NBSP.
\<close>

fun split_nl :: "string \<Rightarrow> string list" where
  "split_nl [] = [[]]"
| "split_nl (c # cs) =
     (if c = CHR 0x0A then [] # split_nl cs
      else (case split_nl cs of [] \<Rightarrow> [[c]] | l # ls \<Rightarrow> (c # l) # ls))"

definition isWhiteSpace :: "char \<Rightarrow> bool" where
  "isWhiteSpace c = (c \<in> set [CHR 0x09, CHR 0x0A, CHR 0x0B, CHR 0x0C, CHR 0x0D, CHR 0x20, CHR 0xA0])"

definition trim :: "string \<Rightarrow> string" where
  "trim s = rev (dropWhile isWhiteSpace (rev (dropWhile isWhiteSpace s)))"

definition payloadLines :: "string \<Rightarrow> string list" where
  "payloadLines payload = filter (\<lambda>line. length line > 0) (map trim (split_nl payload))"

text \<open>
  \<^verbatim>\<open>JSON.stringify\<close> on the values of the model: no white space, the members of an
  object in own-property order, a member whose value is \<^verbatim>\<open>undefined\<close> left out, and
  \<^verbatim>\<open>undefined\<close> inside an array written \<^verbatim>\<open>null\<close>. The handlers only serialise arrays.
\<close>

definition hexDigit :: "nat \<Rightarrow> char" where
  "hexDigit d = ''0123456789abcdef'' ! d"

definition quoteChar :: "char \<Rightarrow> string" where
  "quoteChar c =
     (if c = CHR 0x22 then [CHR 0x5C, CHR 0x22]
      else if c = CHR 0x5C then [CHR 0x5C, CHR 0x5C]
      else if c = CHR 0x08 then [CHR 0x5C, CHR ''b'']
      else if c = CHR 0x0C then [CHR 0x5C, CHR ''f'']
      else if c = CHR 0x0A then [CHR 0x5C, CHR ''n'']
      else if c = CHR 0x0D then [CHR 0x5C, CHR ''r'']
      else if c = CHR 0x09 then [CHR 0x5C, CHR ''t'']
      else if of_char c < (32 :: nat)
      then [CHR 0x5C, CHR ''u'', CHR ''0'', CHR ''0'',
            hexDigit (of_char c div 16), hexDigit (of_char c mod 16)]
      else [c])"

definition quote :: "string \<Rightarrow> string" where
  "quote s = [CHR 0x22] @ concat (map quoteChar s) @ [CHR 0x22]"

fun joinWith :: "string \<Rightarrow> string list \<Rightarrow> string" where
  "joinWith sep [] = []"
| "joinWith sep [x] = x"
| "joinWith sep (x # y # ys) = x @ sep @ joinWith sep (y # ys)"

fun JSON_stringify :: "jsval \<Rightarrow> string" where
  "JSON_stringify JUndefined = ''null''"
| "JSON_stringify JNull = ''null''"
| "JSON_stringify (JBool b) = (if b then ''true'' else ''false'')"
| "JSON_stringify (JNum n) = String_num n"
| "JSON_stringify (JStr s) = quote s"
| "JSON_stringify (JArr xs) = ''['' @ joinWith '','' (map JSON_stringify xs) @ '']''"
| "JSON_stringify (JObj kvs) =
     ''{'' @ joinWith '',''
        (map (\<lambda>(k, t). quote k @ '':'' @ t)
           (js_order (map (\<lambda>(k, v). (k, JSON_stringify v))
                        (filter (\<lambda>(k, v). v \<noteq> JUndefined) kvs))))
     @ ''}''"

declare JSON_stringify.simps [simp del]

section \<open>The chat state\<close>

text \<open>
  \<^verbatim>\<open>SessionInfo\<close>, \<^verbatim>\<open>NickTokenInfo\<close> and \<^verbatim>\<open>ChatState\<close> of the batch handler. An optional
  field is an \<open>option\<close>. The field \<^verbatim>\<open>from\<close> of a message is \<open>msgFrom\<close>, and the
  \<^verbatim>\<open>username\<close> of a token is \<open>tokenUsername\<close>.
\<close>

record Message =
  msgFrom :: string
  body :: string
  timestamp :: int

record SessionInfo =
  username :: string
  displayName :: "string option"

record NickTokenInfo =
  tokenUsername :: string
  nickname :: "string option"
  issuedAt :: int
  lastUsed :: "int option"

record ChatState =
  credentials :: "(string \<times> string) list"
  messages :: "Message list"
  nextSessionCapId :: int
  sessionCaps :: "(string \<times> SessionInfo) list"
  registeredNicks :: "(string \<times> string) list"
  nickOwners :: "(string \<times> string) list"
  nickTokens :: "(string \<times> NickTokenInfo) list"

definition CALCULATOR_CAP_ID :: int where
  "CALCULATOR_CAP_ID = 1"

definition CHAT_CAPABILITY_ID :: int where
  "CHAT_CAPABILITY_ID = 2"

definition SESSION_CAPABILITY_START :: int where
  "SESSION_CAPABILITY_START = 10000"

definition DEFAULT_CHAT_STATE :: ChatState where
  "DEFAULT_CHAT_STATE = \<lparr>
     credentials = [(''alice'', ''password123''), (''bob'', ''hunter2''), (''carol'', ''letmein'')],
     messages = [],
     nextSessionCapId = SESSION_CAPABILITY_START,
     sessionCaps = [],
     registeredNicks = [],
     nickOwners = [],
     nickTokens = [] \<rparr>"

definition cloneDefaultChatState :: ChatState where
  "cloneDefaultChatState = DEFAULT_CHAT_STATE"

subsection \<open>normalizeChatState\<close>

text \<open>
  The loop that \<^verbatim>\<open>normalizeChatState\<close> runs for each of its tables:
  \<^verbatim>\<open>for (const [key, value] of Object.entries(source)) { if (...) target[key] = ...; }\<close>.
  \<open>accept\<close> is the test on the value together with the entry that is stored.
\<close>

definition collectEntries :: "(jsval \<Rightarrow> 'a option) \<Rightarrow> (string \<times> jsval) list \<Rightarrow> (string \<times> 'a) list
    \<Rightarrow> (string \<times> 'a) list" where
  "collectEntries accept entries target =
     fold (\<lambda>(key, value) acc. case accept value of Some x \<Rightarrow> obj_set key x acc | None \<Rightarrow> acc)
       entries target"

text \<open>
  \<^verbatim>\<open>credentials\<close>, \<^verbatim>\<open>registeredNicks\<close> and \<^verbatim>\<open>nickOwners\<close>: starting from the default
  table, every entry of the source whose value is a string.
\<close>

definition acceptString :: "jsval \<Rightarrow> string option" where
  "acceptString value = (case value of JStr s \<Rightarrow> Some s | _ \<Rightarrow> None)"

definition copyStringEntries :: "(string \<times> string) list \<Rightarrow> jsval \<Rightarrow> (string \<times> string) list" where
  "copyStringEntries base src =
     (if isObject src then collectEntries acceptString (Object_entries src) base else base)"

text \<open>
  One entry of \<^verbatim>\<open>source.messages\<close>: kept when \<^verbatim>\<open>from\<close> and \<^verbatim>\<open>body\<close> are non-empty
  strings; a timestamp that is not a number becomes \<^verbatim>\<open>Date.now()\<close>.
\<close>

definition normalizeMessage :: "int \<Rightarrow> jsval \<Rightarrow> Message list" where
  "normalizeMessage now entry =
     (if isObject entry
      then (case (js_prop entry ''from'', js_prop entry ''body'') of
              (JStr f, JStr b) \<Rightarrow>
                (if f \<noteq> [] \<and> b \<noteq> []
                 then [\<lparr> msgFrom = f, body = b,
                          timestamp = (case js_prop entry ''timestamp'' of JNum t \<Rightarrow> t | _ \<Rightarrow> now) \<rparr>]
                 else [])
            | _ \<Rightarrow> [])
      else [])"

definition normalizeMessages :: "int \<Rightarrow> jsval \<Rightarrow> Message list" where
  "normalizeMessages now src =
     (case src of
        JArr entries \<Rightarrow> concat (map (normalizeMessage now) entries)
      | _ \<Rightarrow> messages cloneDefaultChatState)"

definition normalizeNextSessionCapId :: "jsval \<Rightarrow> int" where
  "normalizeNextSessionCapId src =
     (case src of
        JNum n \<Rightarrow> max SESSION_CAPABILITY_START n
      | _ \<Rightarrow> nextSessionCapId cloneDefaultChatState)"

text \<open>
  One value of \<^verbatim>\<open>source.sessionCaps\<close>: an object with a string \<^verbatim>\<open>username\<close>; the
  \<^verbatim>\<open>displayName\<close> is kept when it is a string.
\<close>

definition normalizeSessionInfo :: "jsval \<Rightarrow> SessionInfo option" where
  "normalizeSessionInfo value =
     (if isObject value
      then (case js_prop value ''username'' of
              JStr u \<Rightarrow> Some \<lparr> username = u,
                           displayName = (case js_prop value ''displayName'' of
                                            JStr d \<Rightarrow> Some d | _ \<Rightarrow> None) \<rparr>
            | _ \<Rightarrow> None)
      else None)"

definition normalizeSessionCaps :: "jsval \<Rightarrow> (string \<times> SessionInfo) list" where
  "normalizeSessionCaps src =
     (if isObject src then collectEntries normalizeSessionInfo (Object_entries src) [] else [])"

text \<open>
  One value of \<^verbatim>\<open>source.nickTokens\<close>: an object with a non-empty string
  \<^verbatim>\<open>username\<close>; a \<^verbatim>\<open>nickname\<close> that is not a non-empty string is dropped, an
  \<^verbatim>\<open>issuedAt\<close> that is not a number becomes \<^verbatim>\<open>Date.now()\<close>.
\<close>

definition normalizeNickToken :: "int \<Rightarrow> jsval \<Rightarrow> NickTokenInfo option" where
  "normalizeNickToken now value =
     (if isObject value
      then (case js_prop value ''username'' of
              JStr u \<Rightarrow>
                (if u = [] then None
                 else Some \<lparr> tokenUsername = u,
                        nickname = (case js_prop value ''nickname'' of
                                      JStr n \<Rightarrow> (if n \<noteq> [] then Some n else None)
                                    | _ \<Rightarrow> None),
                        issuedAt = (case js_prop value ''issuedAt'' of
                                      JNum t \<Rightarrow> t | _ \<Rightarrow> now),
                        lastUsed = (case js_prop value ''lastUsed'' of
                                      JNum t \<Rightarrow> Some t | _ \<Rightarrow> None) \<rparr>)
            | _ \<Rightarrow> None)
      else None)"

definition normalizeNickTokens :: "int \<Rightarrow> jsval \<Rightarrow> (string \<times> NickTokenInfo) list" where
  "normalizeNickTokens now src =
     (if isObject src then collectEntries (normalizeNickToken now) (Object_entries src) [] else [])"

definition normalizeChatState :: "int \<Rightarrow> jsval \<Rightarrow> ChatState" where
  "normalizeChatState now parsed =
     (let base = cloneDefaultChatState in
      if \<not> isObject parsed then base
      else \<lparr>
        credentials = copyStringEntries (credentials base) (js_prop parsed ''credentials''),
        messages = normalizeMessages now (js_prop parsed ''messages''),
        nextSessionCapId = normalizeNextSessionCapId (js_prop parsed ''nextSessionCapId''),
        sessionCaps = normalizeSessionCaps (js_prop parsed ''sessionCaps''),
        registeredNicks = copyStringEntries (registeredNicks base) (js_prop parsed ''registeredNicks''),
        nickOwners = copyStringEntries (nickOwners base) (js_prop parsed ''nickOwners''),
        nickTokens = normalizeNickTokens now (js_prop parsed ''nickTokens'') \<rparr>)"

subsection \<open>The storage, loadChatState and persistChatState\<close>

text \<open>
  The four keys of the durable storage. \<open>chatState\<close> is the stored document as
  \<^verbatim>\<open>JSON.parse\<close> reads it back; \<open>None\<close> stands for an absent, empty or unparsable
  entry, for which \<^verbatim>\<open>loadChatState\<close> returns the default state. \<open>lastRequest\<close> and
  \<open>lastResponse\<close> are texts.
\<close>

record Storage =
  chatState :: "jsval option"
  callCount :: "int option"
  lastRequest :: "string option"
  lastResponse :: "string option"

definition loadChatState :: "int \<Rightarrow> Storage \<Rightarrow> ChatState" where
  "loadChatState now state =
     (case chatState state of
        None \<Rightarrow> cloneDefaultChatState
      | Some raw \<Rightarrow> normalizeChatState now raw)"

text \<open>
  The document \<^verbatim>\<open>JSON.stringify(chatState)\<close> writes: the fields in the order of the
  object literal, every table in own-property order, an absent optional field left out.
\<close>

definition stringTable :: "(string \<times> string) list \<Rightarrow> jsval" where
  "stringTable kvs = JObj (map (\<lambda>(k, v). (k, JStr v)) (js_order kvs))"

definition messageJson :: "Message \<Rightarrow> jsval" where
  "messageJson msg = JObj [(''from'', JStr (msgFrom msg)), (''body'', JStr (body msg)),
     (''timestamp'', JNum (timestamp msg))]"

definition sessionInfoJson :: "SessionInfo \<Rightarrow> jsval" where
  "sessionInfoJson info = JObj ((''username'', JStr (username info))
     # (case displayName info of Some d \<Rightarrow> [(''displayName'', JStr d)] | None \<Rightarrow> []))"

definition nickTokenJson :: "NickTokenInfo \<Rightarrow> jsval" where
  "nickTokenJson info = JObj ((''username'', JStr (tokenUsername info))
     # (case nickname info of Some n \<Rightarrow> [(''nickname'', JStr n)] | None \<Rightarrow> [])
     @ [(''issuedAt'', JNum (issuedAt info))]
     @ (case lastUsed info of Some t \<Rightarrow> [(''lastUsed'', JNum t)] | None \<Rightarrow> []))"

definition chatStateJson :: "ChatState \<Rightarrow> jsval" where
  "chatStateJson cs = JObj [
     (''credentials'', stringTable (credentials cs)),
     (''messages'', JArr (map messageJson (messages cs))),
     (''nextSessionCapId'', JNum (nextSessionCapId cs)),
     (''sessionCaps'', JObj (map (\<lambda>(k, v). (k, sessionInfoJson v)) (js_order (sessionCaps cs)))),
     (''registeredNicks'', stringTable (registeredNicks cs)),
     (''nickOwners'', stringTable (nickOwners cs)),
     (''nickTokens'', JObj (map (\<lambda>(k, v). (k, nickTokenJson v)) (js_order (nickTokens cs))))]"

definition persistChatState :: "Storage \<Rightarrow> ChatState \<Rightarrow> Storage" where
  "persistChatState state cs = state\<lparr> chatState := Some (chatStateJson cs) \<rparr>"

definition readDurableStats :: "Storage \<Rightarrow> jsval" where
  "readDurableStats state = JObj [
     (''callCount'', JNum (case callCount state of Some n \<Rightarrow> n | None \<Rightarrow> 0)),
     (''lastRequest'', (case lastRequest state of Some r \<Rightarrow> JStr r | None \<Rightarrow> JNull)),
     (''lastResponse'', (case lastResponse state of Some r \<Rightarrow> JStr r | None \<Rightarrow> JNull))]"

section \<open>Decimal numerals\<close>

lemma digit_cases: "0 \<le> d \<Longrightarrow> d < 10 \<Longrightarrow> d \<in> {0, 1, 2, 3, 4, 5, 6, 7, 8, 9 :: int}"
  by simp presburger

lemma digitVal_digitChar: "0 \<le> d \<Longrightarrow> d < 10 \<Longrightarrow> digitVal (digitChar d) = d"
  using digit_cases [of d] by (auto simp: digitVal_def digitChar_def)

lemma isDigit_digitChar: "0 \<le> d \<Longrightarrow> d < 10 \<Longrightarrow> isDigit (digitChar d)"
  using digit_cases [of d] by (auto simp: isDigit_def digitChar_def)

lemma decToInt_snoc: "decToInt (s @ [c]) = 10 * decToInt s + digitVal c"
  by (simp add: decToInt_def)

lemma decToInt_decimal: "0 \<le> n \<Longrightarrow> decToInt (decimal n) = n"
proof (induction n rule: decimal.induct)
  case (1 n)
  show ?case
  proof (cases "n < 10")
    case True
    with "1.prems" show ?thesis
      by (subst decimal.simps) (simp add: decToInt_def digitVal_digitChar)
  next
    case False
    with "1.prems" have "decToInt (decimal (n div 10)) = n div 10"
      using "1.IH" by simp
    with False "1.prems" show ?thesis
      by (subst decimal.simps) (simp add: decToInt_snoc digitVal_digitChar)
  qed
qed

lemma decimal_digits: "0 \<le> n \<Longrightarrow> list_all isDigit (decimal n)"
proof (induction n rule: decimal.induct)
  case (1 n)
  show ?case
  proof (cases "n < 10")
    case True
    with "1.prems" show ?thesis
      by (subst decimal.simps) (simp add: isDigit_digitChar)
  next
    case False
    with "1.prems" have "list_all isDigit (decimal (n div 10))"
      using "1.IH" by simp
    with False "1.prems" show ?thesis
      by (subst decimal.simps) (simp add: isDigit_digitChar)
  qed
qed

lemma decimal_inj: "0 \<le> m \<Longrightarrow> 0 \<le> n \<Longrightarrow> decimal m = decimal n \<Longrightarrow> m = n"
  by (metis decToInt_decimal)

lemma decimal_no_sign: "0 \<le> n \<Longrightarrow> decimal n \<noteq> CHR ''-'' # s"
proof
  assume "0 \<le> n" and "decimal n = CHR ''-'' # s"
  with decimal_digits [of n] have "isDigit CHR ''-''" by simp
  then show False by (simp add: isDigit_def)
qed

lemma String_num_inj: "String_num i = String_num j \<Longrightarrow> i = j"
proof -
  assume eq: "String_num i = String_num j"
  consider "i < 0" "j < 0" | "i < 0" "\<not> j < 0" | "\<not> i < 0" "j < 0" | "\<not> i < 0" "\<not> j < 0"
    by blast
  then show ?thesis
  proof cases
    case 1
    with eq have "decimal (- i) = decimal (- j)"
      by (simp add: String_num_def)
    with 1 have "- i = - j"
      by (intro decimal_inj) simp_all
    then show ?thesis by simp
  next
    case 2
    with eq have "decimal j = CHR ''-'' # decimal (- i)"
      by (simp add: String_num_def)
    with 2 decimal_no_sign [of j "decimal (- i)"] show ?thesis by simp
  next
    case 3
    with eq have "decimal i = CHR ''-'' # decimal (- j)"
      by (simp add: String_num_def)
    with 3 decimal_no_sign [of i "decimal (- j)"] show ?thesis by simp
  next
    case 4
    with eq have "decimal i = decimal j"
      by (simp add: String_num_def)
    with 4 show ?thesis
      by (intro decimal_inj) simp_all
  qed
qed

lemma inj_String_num: "inj String_num"
  by (rule injI) (rule String_num_inj)

text \<open>A numeral is not the key \<^verbatim>\<open>__proto__\<close>.\<close>

lemma String_num_not_proto: "String_num i \<noteq> ''__proto__''"
proof (cases "i < 0")
  case True
  then show ?thesis
    by (simp add: String_num_def)
next
  case False
  then have "list_all isDigit (String_num i)"
    by (simp add: String_num_def decimal_digits)
  moreover have "\<not> list_all isDigit ''__proto__''"
    by (simp add: isDigit_def)
  ultimately show ?thesis
    by auto
qed

lemma obj_set_String_num: "obj_set (String_num i) v kvs = obj_put (String_num i) v kvs"
  by (simp add: obj_set_def String_num_not_proto)

section \<open>The broadcast hub\<close>

text \<open>
  The server instance: the set of client stubs, in insertion order, and a trace of the
  calls of \<^verbatim>\<open>receiveMessage\<close> made on them. The parameter \<open>receive\<close> tells whether the
  call \<^verbatim>\<open>clientStub.receiveMessage(message)\<close> completes (\<open>True\<close>) or throws.
\<close>

type_synonym client = nat

record Server =
  clients :: "client list"
  attempts :: "(client \<times> Message) list"

text \<open>
  \<^verbatim>\<open>CapnWebDurable.broadcastMessage\<close>: the loop over \<^verbatim>\<open>Array.from(this.clients)\<close>, with
  \<^verbatim>\<open>this.clients.delete(clientStub)\<close> in the \<^verbatim>\<open>catch\<close> block.
\<close>

fun broadcastLoop :: "(client \<Rightarrow> Message \<Rightarrow> bool) \<Rightarrow> Message \<Rightarrow> client list \<Rightarrow> Server \<Rightarrow> Server" where
  "broadcastLoop receive message [] srv = srv"
| "broadcastLoop receive message (clientStub # rest) srv =
     (let called = srv\<lparr> attempts := attempts srv @ [(clientStub, message)] \<rparr>
      in if receive clientStub message
         then broadcastLoop receive message rest called
         else broadcastLoop receive message rest
                (called\<lparr> clients := removeAll clientStub (clients called) \<rparr>))"

definition broadcastMessage :: "(client \<Rightarrow> Message \<Rightarrow> bool) \<Rightarrow> Message \<Rightarrow> Server \<Rightarrow> Server" where
  "broadcastMessage receive message srv = broadcastLoop receive message (clients srv) srv"

section \<open>The chat batch handler\<close>

subsection \<open>Decoding the two lines\<close>

definition check :: "bool \<Rightarrow> unit option" where
  "check b = (if b then Some () else None)"

definition asArray :: "jsval \<Rightarrow> jsval list option" where
  "asArray v = (case v of JArr xs \<Rightarrow> Some xs | _ \<Rightarrow> None)"

definition asNumber :: "jsval \<Rightarrow> int option" where
  "asNumber v = (case v of JNum n \<Rightarrow> Some n | _ \<Rightarrow> None)"

text \<open>
  \<^verbatim>\<open>Array.isArray(path) && typeof path[0] === "string" ? path[0] : null\<close>, followed by
  \<^verbatim>\<open>if (!method) return null\<close>: the empty string is rejected too.
\<close>

definition methodOf :: "jsval \<Rightarrow> string option" where
  "methodOf path = (case path of
      JArr p \<Rightarrow> (case js_index p 0 of JStr m \<Rightarrow> (if m = [] then None else Some m) | _ \<Rightarrow> None)
    | _ \<Rightarrow> None)"

record ChatCall =
  importId :: int
  capabilityId :: int
  methodName :: string
  args :: "jsval list"

text \<open>
  The checks of \<^verbatim>\<open>tryHandleChatBatch\<close> before the state is loaded, in the order of the
  source; \<open>None\<close> is the \<^verbatim>\<open>return null\<close> of each of them.
\<close>

definition decodeChatBatch :: "(string \<Rightarrow> jsval option) \<Rightarrow> string \<Rightarrow> ChatCall option" where
  "decodeChatBatch parse payload =
     (case payloadLines payload of
        [line0, line1] \<Rightarrow>
          Option.bind (parse line0) (\<lambda>pushOp.
          Option.bind (parse line1) (\<lambda>pullOp.
          Option.bind (asArray pushOp) (\<lambda>pushA.
          Option.bind (check (js_index pushA 0 = JStr ''push'')) (\<lambda>_.
          Option.bind (asArray pullOp) (\<lambda>pullA.
          Option.bind (check (js_index pullA 0 = JStr ''pull'')) (\<lambda>_.
          Option.bind (asNumber (js_index pullA 1)) (\<lambda>imp.
          Option.bind (asArray (js_index pushA 1)) (\<lambda>callOp.
          Option.bind (check (js_index callOp 0 = JStr ''call'')) (\<lambda>_.
          Option.bind (asNumber (js_index callOp 1)) (\<lambda>cap.
          Option.bind (methodOf (js_index callOp 2)) (\<lambda>m.
          Option.bind (asArray (js_index callOp 3)) (\<lambda>as.
          Some \<lparr> importId = imp, capabilityId = cap, methodName = m, args = as \<rparr>))))))))))))
      | _ \<Rightarrow> None)"

subsection \<open>Allocation of a session capability id\<close>

text \<open>
  \<^verbatim>\<open>while (chatState.sessionCaps[String(sessionCapId)]) { sessionCapId += 1; }\<close>

  The loop need not end: at \<open>2^53\<close> the increment leaves \<^verbatim>\<open>sessionCapId\<close> as it is, and
  when that key is taken the test stays true. \<open>None\<close> is the run that never leaves the
  loop.
\<close>

partial_function (option) probeSessionCapId :: "(string \<times> SessionInfo) list \<Rightarrow> int \<Rightarrow> int option" where
  "probeSessionCapId caps sessionCapId =
     (if map_of caps (String_num sessionCapId) \<noteq> None
      then probeSessionCapId caps (js_inc sessionCapId)
      else Some sessionCapId)"

subsection \<open>The methods\<close>

text \<open>
  \<open>payloadResult\<close> of the source: \<^verbatim>\<open>{ success: true, value }\<close> or
  \<^verbatim>\<open>{ success: false, message }\<close>. Every branch of the dispatch assigns it.
\<close>

datatype PayloadResult = Success jsval | Failure string

definition capabilityJson :: "int \<Rightarrow> jsval" where
  "capabilityJson sessionCapId = JObj [(''_type'', JStr ''capability''), (''id'', JNum sessionCapId)]"

definition statusError :: "string \<Rightarrow> jsval" where
  "statusError msg = JObj [(''status'', JStr ''error''), (''message'', JStr msg)]"

definition statusOk :: "string \<Rightarrow> jsval" where
  "statusOk msg = JObj [(''status'', JStr ''ok''), (''message'', JStr msg)]"

text \<open>\<^verbatim>\<open>sessionInfo.displayName ?? sessionInfo.username\<close>\<close>

definition displayIdentity :: "SessionInfo \<Rightarrow> string" where
  "displayIdentity info = (case displayName info of Some d \<Rightarrow> d | None \<Rightarrow> username info)"

text \<open>
  The test \<^verbatim>\<open>if (table[key])\<close> on a table of strings: the key is present and its
  value is not the empty string.
\<close>

definition truthyEntry :: "(string \<times> string) list \<Rightarrow> string \<Rightarrow> bool" where
  "truthyEntry table key = (case map_of table key of Some v \<Rightarrow> v \<noteq> [] | None \<Rightarrow> False)"

text \<open>
  Methods of the global chat capability. The result is
  \<open>(payloadResult, chatState, mutated)\<close>, or \<open>None\<close> when the allocation loop does not
  end.
\<close>

definition authCall :: "jsval list \<Rightarrow> ChatState \<Rightarrow> (PayloadResult \<times> ChatState \<times> bool) option" where
  "authCall as cs =
     (case as of
        JStr user # rest \<Rightarrow>
          (case probeSessionCapId (sessionCaps cs) (nextSessionCapId cs) of
             None \<Rightarrow> None
           | Some sessionCapId \<Rightarrow>
               (let storedUsername = ''guest-'' @ String_num sessionCapId;
                    cs' = cs\<lparr> nextSessionCapId := js_inc sessionCapId,
                             sessionCaps := obj_set (String_num sessionCapId)
                               \<lparr> username = storedUsername, displayName = None \<rparr> (sessionCaps cs) \<rparr>
                in Some (Success (JObj [(''session'', capabilityJson sessionCapId),
                                        (''user'', JStr storedUsername)]), cs', True)))
      | _ \<Rightarrow> Some (Failure ''`auth` expects <username>'', cs, False))"

definition redeemNickTokenCall :: "int \<Rightarrow> jsval list \<Rightarrow> ChatState
    \<Rightarrow> (PayloadResult \<times> ChatState \<times> bool) option" where
  "redeemNickTokenCall now as cs =
     (case as of
        [JStr raw] \<Rightarrow>
          (let token = trim raw in
           if token = [] then Some (Success (statusError ''Token must be provided''), cs, False)
           else (case map_of (nickTokens cs) token of
                   None \<Rightarrow> Some (Success (statusError ''Token not recognized''), cs, False)
                 | Some tokenInfo \<Rightarrow>
                     (case probeSessionCapId (sessionCaps cs) (nextSessionCapId cs) of
                        None \<Rightarrow> None
                      | Some sessionCapId \<Rightarrow>
                          (let nick = (case nickname tokenInfo of Some n \<Rightarrow> n
                                       | None \<Rightarrow> tokenUsername tokenInfo);
                               cs' = cs\<lparr> nextSessionCapId := js_inc sessionCapId,
                                        sessionCaps := obj_set (String_num sessionCapId)
                                          \<lparr> username = tokenUsername tokenInfo, displayName = Some nick \<rparr>
                                          (sessionCaps cs),
                                        nickTokens := obj_set token (tokenInfo\<lparr> lastUsed := Some now \<rparr>)
                                          (nickTokens cs) \<rparr>
                           in Some (Success (JObj [(''status'', JStr ''ok''),
                                                   (''session'', capabilityJson sessionCapId),
                                                   (''user'', JStr (tokenUsername tokenInfo)),
                                                   (''nickname'', JStr nick)]), cs', True)))))
      | _ \<Rightarrow> Some (Failure ''`redeemNickToken` expects <token>'', cs, False))"

definition chatCapabilityCall :: "int \<Rightarrow> string \<Rightarrow> jsval list \<Rightarrow> ChatState
    \<Rightarrow> (PayloadResult \<times> ChatState \<times> bool) option" where
  "chatCapabilityCall now m as cs =
     (if m = ''auth'' then authCall as cs
      else if m = ''redeemNickToken'' then redeemNickTokenCall now as cs
      else if m = ''sendMessage'' \<or> m = ''receiveMessages''
      then Some (Failure ''Call this method on the session capability returned by `auth`'', cs, False)
      else Some (Failure (''Unknown chat method: '' @ m), cs, False))"

text \<open>
  Methods of a session capability. \<open>sendMessage\<close> also returns the server instance after
  the broadcast; \<open>None\<close> is a missing \<^verbatim>\<open>globalThis.serverInstance\<close>.
\<close>

definition sendMessageCall :: "(client \<Rightarrow> Message \<Rightarrow> bool) \<Rightarrow> int \<Rightarrow> Server option \<Rightarrow> SessionInfo
    \<Rightarrow> jsval list \<Rightarrow> ChatState \<Rightarrow> PayloadResult \<times> ChatState \<times> bool \<times> Server option" where
  "sendMessageCall receive now server sessionInfo as cs =
     (case as of
        [JStr message] \<Rightarrow>
          (let newMessage = \<lparr> msgFrom = displayIdentity sessionInfo, body = message, timestamp = now \<rparr>;
               cs' = cs\<lparr> messages := messages cs @ [newMessage] \<rparr>;
               server' = (case server of
                            Some srv \<Rightarrow> Some (broadcastMessage receive newMessage srv)
                          | None \<Rightarrow> None)
           in (Success (JObj [(''status'', JStr ''ok''), (''echo'', JStr message)]), cs', True, server'))
      | _ \<Rightarrow> (Failure ''`sendMessage` expects <message>'', cs, False, server))"

definition receiveMessagesCall :: "jsval list \<Rightarrow> ChatState \<Rightarrow> PayloadResult \<times> ChatState \<times> bool" where
  "receiveMessagesCall as cs =
     (if as \<noteq> [] then (Failure ''`receiveMessages` takes no arguments'', cs, False)
      else (Success (JObj [(''messages'', JArr (map messageJson (messages cs)))]), cs, False))"

definition registerNickCall :: "int \<Rightarrow> SessionInfo \<Rightarrow> jsval list \<Rightarrow> ChatState \<Rightarrow> PayloadResult \<times> ChatState \<times> bool" where
  "registerNickCall capId sessionInfo as cs =
     (case as of
        [JStr nick, JStr password] \<Rightarrow>
          (if truthyEntry (registeredNicks cs) nick
           then (Success (statusError ''Nickname already registered''), cs, False)
           else (let cs' = cs\<lparr> registeredNicks := obj_set nick password (registeredNicks cs),
                               nickOwners := obj_set nick (username sessionInfo) (nickOwners cs),
                               sessionCaps := obj_set (String_num capId)
                                 (sessionInfo\<lparr> displayName := Some nick \<rparr>) (sessionCaps cs) \<rparr>
                 in (Success (statusOk (''Nickname '' @ [CHR 0x27] @ nick @ [CHR 0x27]
                                 @ '' registered successfully'')), cs', True)))
      | _ \<Rightarrow> (Failure ''`registerNick` expects <nickname>, <password>'', cs, False))"

definition identifyNickCall :: "int \<Rightarrow> SessionInfo \<Rightarrow> jsval list \<Rightarrow> ChatState \<Rightarrow> PayloadResult \<times> ChatState \<times> bool" where
  "identifyNickCall capId sessionInfo as cs =
     (case as of
        [JStr nick, JStr password] \<Rightarrow>
          (if \<not> truthyEntry (registeredNicks cs) nick
           then (Success (statusError ''Nickname not registered''), cs, False)
           else if map_of (registeredNicks cs) nick \<noteq> Some password
           then (Success (statusError ''Invalid password''), cs, False)
           else (let cs' = cs\<lparr> nickOwners := obj_set nick (username sessionInfo) (nickOwners cs),
                               sessionCaps := obj_set (String_num capId)
                                 (sessionInfo\<lparr> displayName := Some nick \<rparr>) (sessionCaps cs) \<rparr>
                 in (Success (statusOk (''Successfully identified as '' @ [CHR 0x27] @ nick
                                 @ [CHR 0x27])), cs', True)))
      | _ \<Rightarrow> (Failure ''`identifyNick` expects <nickname>, <password>'', cs, False))"

definition checkNickCall :: "jsval list \<Rightarrow> ChatState \<Rightarrow> PayloadResult \<times> ChatState \<times> bool" where
  "checkNickCall as cs =
     (case as of
        [JStr nick] \<Rightarrow>
          (Success (JObj [(''status'', JStr ''ok''),
                          (''registered'', JBool (truthyEntry (registeredNicks cs) nick))]), cs, False)
      | _ \<Rightarrow> (Failure ''`checkNick` expects <nickname>'', cs, False))"

text \<open>
  \<^verbatim>\<open>storeNickToken\<close>: the entries of the user, most recently issued first (the sort
  is stable), and the deletion of all but the first five.
\<close>

definition tokensForUser :: "string \<Rightarrow> (string \<times> NickTokenInfo) list \<Rightarrow> (string \<times> NickTokenInfo) list" where
  "tokensForUser user tokens =
     sort_key (\<lambda>(tokenKey, info). - issuedAt info)
       (filter (\<lambda>(tokenKey, info). tokenUsername info = user) (js_order tokens))"

definition pruneTokens :: "string \<Rightarrow> (string \<times> NickTokenInfo) list \<Rightarrow> (string \<times> NickTokenInfo) list" where
  "pruneTokens user tokens =
     fold (\<lambda>(tokenKey, info) acc. obj_delete tokenKey acc) (drop 5 (tokensForUser user tokens)) tokens"

definition storeNickTokenCall :: "int \<Rightarrow> SessionInfo \<Rightarrow> jsval list \<Rightarrow> ChatState \<Rightarrow> PayloadResult \<times> ChatState \<times> bool" where
  "storeNickTokenCall now sessionInfo as cs =
     (case as of
        [JStr raw] \<Rightarrow>
          (let token = trim raw in
           if token = [] then (Success (statusError ''Token must be provided''), cs, False)
           else (let stored = obj_set token
                       \<lparr> tokenUsername = username sessionInfo,
                         nickname = (case displayName sessionInfo of
                                       Some d \<Rightarrow> (if d \<noteq> [] then Some d else None)
                                     | None \<Rightarrow> None),
                         issuedAt = now, lastUsed = Some now \<rparr> (nickTokens cs);
                     cs' = cs\<lparr> nickTokens := pruneTokens (username sessionInfo) stored \<rparr>
                 in (Success (statusOk ''Nickname token stored''), cs', True)))
      | _ \<Rightarrow> (Failure ''`storeNickToken` expects <token>'', cs, False))"

definition whoamiCall :: "SessionInfo \<Rightarrow> ChatState \<Rightarrow> PayloadResult \<times> ChatState \<times> bool" where
  "whoamiCall sessionInfo cs =
     (Success (JObj [(''username'', JStr (displayIdentity sessionInfo))]), cs, False)"

definition withServer :: "Server option \<Rightarrow> PayloadResult \<times> ChatState \<times> bool
    \<Rightarrow> PayloadResult \<times> ChatState \<times> bool \<times> Server option" where
  "withServer server r = (case r of (res, cs, mutated) \<Rightarrow> (res, cs, mutated, server))"

definition sessionCall :: "(client \<Rightarrow> Message \<Rightarrow> bool) \<Rightarrow> int \<Rightarrow> Server option \<Rightarrow> int \<Rightarrow> SessionInfo
    \<Rightarrow> string \<Rightarrow> jsval list \<Rightarrow> ChatState \<Rightarrow> PayloadResult \<times> ChatState \<times> bool \<times> Server option" where
  "sessionCall receive now server capId sessionInfo m as cs =
     (if m = ''sendMessage'' then sendMessageCall receive now server sessionInfo as cs
      else if m = ''receiveMessages'' then withServer server (receiveMessagesCall as cs)
      else if m = ''registerNick'' then withServer server (registerNickCall capId sessionInfo as cs)
      else if m = ''identifyNick'' then withServer server (identifyNickCall capId sessionInfo as cs)
      else if m = ''checkNick'' then withServer server (checkNickCall as cs)
      else if m = ''storeNickToken'' then withServer server (storeNickTokenCall now sessionInfo as cs)
      else if m = ''whoami'' then withServer server (whoamiCall sessionInfo cs)
      else (Failure (''method '' @ m @ '' not supported on session capability''), cs, False, server))"

text \<open>
  The dispatch on the capability id; \<open>None\<close> when the method does not return. Only the
  two allocating methods of the chat capability contain a loop.
\<close>

definition dispatchChatCall :: "(client \<Rightarrow> Message \<Rightarrow> bool) \<Rightarrow> int \<Rightarrow> Server option \<Rightarrow> ChatCall
    \<Rightarrow> ChatState \<Rightarrow> (PayloadResult \<times> ChatState \<times> bool \<times> Server option) option" where
  "dispatchChatCall receive now server call cs =
     (if capabilityId call = CHAT_CAPABILITY_ID
      then map_option (withServer server) (chatCapabilityCall now (methodName call) (args call) cs)
      else Some (case map_of (sessionCaps cs) (String_num (capabilityId call)) of
                   None \<Rightarrow> (Failure ''unknown session capability'', cs, False, server)
                 | Some sessionInfo \<Rightarrow>
                     sessionCall receive now server (capabilityId call) sessionInfo
                       (methodName call) (args call) cs))"

subsection \<open>tryHandleChatBatch and tryHandleStatsBatch\<close>

record Response =
  responseText :: string
  callCountHeader :: string

definition replyOf :: "int \<Rightarrow> PayloadResult \<Rightarrow> jsval" where
  "replyOf imp res = (case res of
      Success v \<Rightarrow> JArr [JStr ''result'', JNum imp, v]
    | Failure msg \<Rightarrow> JArr [JStr ''error'', JNum imp, JObj [(''message'', JStr msg)]])"

text \<open>
  \<^verbatim>\<open>tryHandleChatBatch\<close>. The outer \<open>option\<close> is \<open>None\<close> when the handler does not
  return; \<open>Some (None, server, state)\<close> is its \<^verbatim>\<open>return null\<close>, and
  \<open>Some (Some response, server', state')\<close> the response with the server instance and the
  storage it leaves.
\<close>

definition tryHandleChatBatch :: "(string \<Rightarrow> jsval option) \<Rightarrow> (client \<Rightarrow> Message \<Rightarrow> bool)
    \<Rightarrow> int \<Rightarrow> string \<Rightarrow> Server option \<times> Storage
    \<Rightarrow> (Response option \<times> Server option \<times> Storage) option" where
  "tryHandleChatBatch parse receive now payload world =
     (case world of (server, state) \<Rightarrow>
       (case decodeChatBatch parse payload of
          None \<Rightarrow> Some (None, server, state)
        | Some call \<Rightarrow>
            (case dispatchChatCall receive now server call (loadChatState now state) of
               None \<Rightarrow> None
             | Some (payloadResult, cs, mutated, server') \<Rightarrow>
                 (let state1 = (if mutated then persistChatState state cs else state);
                      responseLine = JSON_stringify (replyOf (importId call) payloadResult);
                      nextCount = js_inc (case callCount state1 of Some n \<Rightarrow> n | None \<Rightarrow> 0);
                      state2 = state1\<lparr> callCount := Some nextCount,
                                       lastRequest := Some payload,
                                       lastResponse := Some responseLine \<rparr>
                  in Some (Some \<lparr> responseText = responseLine,
                                  callCountHeader = String_num nextCount \<rparr>, server', state2)))))"

text \<open>
  \<^verbatim>\<open>tryHandleStatsBatch\<close>: its own sequence of checks, then a read of the three
  diagnostic keys. It writes nothing.
\<close>

definition decodeStatsBatch :: "(string \<Rightarrow> jsval option) \<Rightarrow> string \<Rightarrow> int option" where
  "decodeStatsBatch parse payload =
     (case payloadLines payload of
        [line0, line1] \<Rightarrow>
          Option.bind (parse line0) (\<lambda>pushOp.
          Option.bind (parse line1) (\<lambda>pullOp.
          Option.bind (asArray pushOp) (\<lambda>pushA.
          Option.bind (check (js_index pushA 0 = JStr ''push'')) (\<lambda>_.
          Option.bind (asArray (js_index pushA 1)) (\<lambda>callOp.
          Option.bind (check (js_index callOp 0 = JStr ''call'')) (\<lambda>_.
          Option.bind (check (case js_index callOp 2 of
                                JArr p \<Rightarrow> js_index p 0 = JStr ''stats'' | _ \<Rightarrow> False)) (\<lambda>_.
          Option.bind (asArray pullOp) (\<lambda>pullA.
          Option.bind (check (js_index pullA 0 = JStr ''pull'')) (\<lambda>_.
          asNumber (js_index pullA 1))))))))))
      | _ \<Rightarrow> None)"

definition tryHandleStatsBatch :: "(string \<Rightarrow> jsval option) \<Rightarrow> string \<Rightarrow> Storage
    \<Rightarrow> Response option \<times> Storage" where
  "tryHandleStatsBatch parse payload state =
     (case decodeStatsBatch parse payload of
        None \<Rightarrow> (None, state)
      | Some imp \<Rightarrow>
          (Some \<lparr> responseText = JSON_stringify (JArr [JStr ''result'', JNum imp,
                                   readDurableStats state]),
                  callCountHeader = String_num (case callCount state of Some n \<Rightarrow> n | None \<Rightarrow> 0) \<rparr>,
           state))"

subsection \<open>Sequences of batches\<close>

text \<open>
  The requests arrive one at a time; each is a pair of the clock reading and the payload.
  A request that does not return leaves the sequence without a result.
\<close>

fun runBatches :: "(string \<Rightarrow> jsval option) \<Rightarrow> (client \<Rightarrow> Message \<Rightarrow> bool) \<Rightarrow> (int \<times> string) list
    \<Rightarrow> Server option \<times> Storage \<Rightarrow> (Server option \<times> Storage) option" where
  "runBatches parse receive [] world = Some world"
| "runBatches parse receive ((now, payload) # rest) world =
     (case tryHandleChatBatch parse receive now payload world of
        None \<Rightarrow> None
      | Some (response, world') \<Rightarrow> runBatches parse receive rest world')"

section \<open>The WebSocket server\<close>

text \<open>
  \<^verbatim>\<open>CapnWebDurable.sendMessage\<close> of the server module. That module has its own
  \<^verbatim>\<open>ChatState\<close>, without \<^verbatim>\<open>nickTokens\<close> and with an empty default \<^verbatim>\<open>credentials\<close>
  table; it is the record above with \<open>nickTokens = []\<close>, and its document has no
  \<^verbatim>\<open>nickTokens\<close> member. \<open>Inl\<close> is the \<^verbatim>\<open>Error\<close> the method throws.
\<close>

definition server_DEFAULT_CHAT_STATE :: ChatState where
  "server_DEFAULT_CHAT_STATE = \<lparr>
     credentials = [],
     messages = [],
     nextSessionCapId = SESSION_CAPABILITY_START,
     sessionCaps = [],
     registeredNicks = [],
     nickOwners = [],
     nickTokens = [] \<rparr>"

definition server_normalizeChatState :: "int \<Rightarrow> jsval \<Rightarrow> ChatState" where
  "server_normalizeChatState now parsed =
     (let base = server_DEFAULT_CHAT_STATE in
      if \<not> isObject parsed then base
      else \<lparr>
        credentials = copyStringEntries (credentials base) (js_prop parsed ''credentials''),
        messages = normalizeMessages now (js_prop parsed ''messages''),
        nextSessionCapId = normalizeNextSessionCapId (js_prop parsed ''nextSessionCapId''),
        sessionCaps = normalizeSessionCaps (js_prop parsed ''sessionCaps''),
        registeredNicks = copyStringEntries (registeredNicks base) (js_prop parsed ''registeredNicks''),
        nickOwners = copyStringEntries (nickOwners base) (js_prop parsed ''nickOwners''),
        nickTokens = [] \<rparr>)"

definition server_loadChatState :: "int \<Rightarrow> Storage \<Rightarrow> ChatState" where
  "server_loadChatState now state =
     (case chatState state of
        None \<Rightarrow> server_DEFAULT_CHAT_STATE
      | Some raw \<Rightarrow> server_normalizeChatState now raw)"

definition server_chatStateJson :: "ChatState \<Rightarrow> jsval" where
  "server_chatStateJson cs = JObj [
     (''credentials'', stringTable (credentials cs)),
     (''messages'', JArr (map messageJson (messages cs))),
     (''nextSessionCapId'', JNum (nextSessionCapId cs)),
     (''sessionCaps'', JObj (map (\<lambda>(k, v). (k, sessionInfoJson v)) (js_order (sessionCaps cs)))),
     (''registeredNicks'', stringTable (registeredNicks cs)),
     (''nickOwners'', stringTable (nickOwners cs))]"

definition server_persistChatState :: "Storage \<Rightarrow> ChatState \<Rightarrow> Storage" where
  "server_persistChatState state cs = state\<lparr> chatState := Some (server_chatStateJson cs) \<rparr>"

definition CapnWebDurable_sendMessage :: "(client \<Rightarrow> Message \<Rightarrow> bool) \<Rightarrow> int \<Rightarrow> int \<Rightarrow> string
    \<Rightarrow> Server \<times> Storage \<Rightarrow> string + (jsval \<times> Server \<times> Storage)" where
  "CapnWebDurable_sendMessage receive now capId message world =
     (case world of (this, state) \<Rightarrow>
        (let cs = server_loadChatState now state in
         case map_of (sessionCaps cs) (String_num capId) of
           None \<Rightarrow> Inl ''unknown session capability''
         | Some sessionInfo \<Rightarrow>
             (let newMessage = \<lparr> msgFrom = displayIdentity sessionInfo, body = message,
                                  timestamp = now \<rparr>;
                  state' = server_persistChatState state (cs\<lparr> messages := messages cs @ [newMessage] \<rparr>);
                  this' = broadcastLoop receive newMessage (clients this) this
              in Inr (JObj [(''status'', JStr ''ok''), (''echo'', JStr message)], this', state'))))"

section \<open>Sample requests\<close>

text \<open>
  Concrete inputs for the closed theorems below. \<open>sampleParse\<close> lists what
  \<^verbatim>\<open>JSON.parse\<close> returns on the request lines that are used; on any other line it
  fails.
\<close>

definition batch :: "string \<Rightarrow> string \<Rightarrow> string" where
  "batch line0 line1 = line0 @ [CHR 0x0A] @ line1"

definition sampleParse :: "string \<Rightarrow> jsval option" where
  \<open>sampleParse = map_of [
     (''["pull",1]'', JArr [JStr ''pull'', JNum 1]),
     (''["push",["call",2,["auth"],["zed","secret"]]]'',
        JArr [JStr ''push'', JArr [JStr ''call'', JNum 2, JArr [JStr ''auth''],
          JArr [JStr ''zed'', JStr ''secret'']]]),
     (''["push",["call",10000,["sendMessage"],["hi"]]]'',
        JArr [JStr ''push'', JArr [JStr ''call'', JNum 10000, JArr [JStr ''sendMessage''],
          JArr [JStr ''hi'']]]),
     (''["push",["call",10000,["sendMessage"],[""]]]'',
        JArr [JStr ''push'', JArr [JStr ''call'', JNum 10000, JArr [JStr ''sendMessage''],
          JArr [JStr []]]]),
     (''["push",["call",10000,["storeNickToken"],["tok"]]]'',
        JArr [JStr ''push'', JArr [JStr ''call'', JNum 10000, JArr [JStr ''storeNickToken''],
          JArr [JStr ''tok'']]]),
     (''["push",["call",10000,["storeNickToken"],[" tok"]]]'',
        JArr [JStr ''push'', JArr [JStr ''call'', JNum 10000, JArr [JStr ''storeNickToken''],
          JArr [JStr '' tok'']]]),
     (''["push",["call",10000,["storeNickToken"],["tok "]]]'',
        JArr [JStr ''push'', JArr [JStr ''call'', JNum 10000, JArr [JStr ''storeNickToken''],
          JArr [JStr ''tok '']]]),
     (''["push",["call",10000,["storeNickToken"],[" tok "]]]'',
        JArr [JStr ''push'', JArr [JStr ''call'', JNum 10000, JArr [JStr ''storeNickToken''],
          JArr [JStr '' tok '']]]),
     (''["push",["call",10000,["storeNickToken"],["  tok"]]]'',
        JArr [JStr ''push'', JArr [JStr ''call'', JNum 10000, JArr [JStr ''storeNickToken''],
          JArr [JStr ''  tok'']]]),
     (''["push",["call",10000,["storeNickToken"],["tok  "]]]'',
        JArr [JStr ''push'', JArr [JStr ''call'', JNum 10000, JArr [JStr ''storeNickToken''],
          JArr [JStr ''tok  '']]]),
     (''["push",["call",10000,["storeNickToken"],["a"]]]'',
        JArr [JStr ''push'', JArr [JStr ''call'', JNum 10000, JArr [JStr ''storeNickToken''],
          JArr [JStr ''a'']]]),
     (''["push",["call",10000,["storeNickToken"],["b"]]]'',
        JArr [JStr ''push'', JArr [JStr ''call'', JNum 10000, JArr [JStr ''storeNickToken''],
          JArr [JStr ''b'']]]),
     (''["push",["call",10000,["storeNickToken"],["c"]]]'',
        JArr [JStr ''push'', JArr [JStr ''call'', JNum 10000, JArr [JStr ''storeNickToken''],
          JArr [JStr ''c'']]]),
     (''["push",["call",10000,["storeNickToken"],["d"]]]'',
        JArr [JStr ''push'', JArr [JStr ''call'', JNum 10000, JArr [JStr ''storeNickToken''],
          JArr [JStr ''d'']]]),
     (''["push",["call",10000,["storeNickToken"],["e"]]]'',
        JArr [JStr ''push'', JArr [JStr ''call'', JNum 10000, JArr [JStr ''storeNickToken''],
          JArr [JStr ''e'']]]),
     (''["push",["call",10000,["storeNickToken"],["f"]]]'',
        JArr [JStr ''push'', JArr [JStr ''call'', JNum 10000, JArr [JStr ''storeNickToken''],
          JArr [JStr ''f'']]]),
     (''["push",["call",77,["whoami"],[]]]'',
        JArr [JStr ''push'', JArr [JStr ''call'', JNum 77, JArr [JStr ''whoami''], JArr []]]),
     (''["push",["call",1,["stats"],[]]]'',
        JArr [JStr ''push'', JArr [JStr ''call'', JNum 1, JArr [JStr ''stats''], JArr []]]),
     (''["push",["call",10000,["registerNick"],["bob",""]]]'',
        JArr [JStr ''push'', JArr [JStr ''call'', JNum 10000, JArr [JStr ''registerNick''],
          JArr [JStr ''bob'', JStr []]]]),
     (''["push",["call",10001,["registerNick"],["bob","pw2"]]]'',
        JArr [JStr ''push'', JArr [JStr ''call'', JNum 10001, JArr [JStr ''registerNick''],
          JArr [JStr ''bob'', JStr ''pw2'']]]),
     (''["push",["call",10001,["identifyNick"],["bob",""]]]'',
        JArr [JStr ''push'', JArr [JStr ''call'', JNum 10001, JArr [JStr ''identifyNick''],
          JArr [JStr ''bob'', JStr []]]])]\<close>

definition emptyStorage :: Storage where
  "emptyStorage = \<lparr> chatState = None, callCount = None, lastRequest = None, lastResponse = None \<rparr>"

text \<open>The storage after one \<^verbatim>\<open>auth\<close> on the empty storage: one session, 10000.\<close>

definition oneSessionState :: ChatState where
  "oneSessionState = DEFAULT_CHAT_STATE\<lparr>
     nextSessionCapId := 10001,
     sessionCaps := [(''10000'', \<lparr> username = ''guest-10000'', displayName = None \<rparr>)] \<rparr>"

definition oneSessionStorage :: Storage where
  "oneSessionStorage = \<lparr> chatState = Some (chatStateJson oneSessionState),
     callCount = Some 1, lastRequest = None, lastResponse = None \<rparr>"

text \<open>
  Two sessions, and then the nickname \<^verbatim>\<open>bob\<close> registered by session 10000 with the
  empty password; \<open>takenOverState\<close> is what the second registration of \<^verbatim>\<open>bob\<close>, by
  session 10001, leaves.
\<close>

definition twoSessionState :: ChatState where
  "twoSessionState = DEFAULT_CHAT_STATE\<lparr>
     nextSessionCapId := 10002,
     sessionCaps := [(''10000'', \<lparr> username = ''guest-10000'', displayName = None \<rparr>),
                     (''10001'', \<lparr> username = ''guest-10001'', displayName = None \<rparr>)] \<rparr>"

definition twoSessionStorage :: Storage where
  "twoSessionStorage = \<lparr> chatState = Some (chatStateJson twoSessionState),
     callCount = Some 2, lastRequest = None, lastResponse = None \<rparr>"

definition emptyPasswordState :: ChatState where
  "emptyPasswordState = twoSessionState\<lparr>
     sessionCaps := [(''10000'', \<lparr> username = ''guest-10000'', displayName = Some ''bob'' \<rparr>),
                     (''10001'', \<lparr> username = ''guest-10001'', displayName = None \<rparr>)],
     registeredNicks := [(''bob'', [])],
     nickOwners := [(''bob'', ''guest-10000'')] \<rparr>"

definition emptyPasswordStorage :: Storage where
  "emptyPasswordStorage = \<lparr> chatState = Some (chatStateJson emptyPasswordState),
     callCount = Some 3, lastRequest = None, lastResponse = None \<rparr>"

definition takenOverState :: ChatState where
  "takenOverState = twoSessionState\<lparr>
     sessionCaps := [(''10000'', \<lparr> username = ''guest-10000'', displayName = Some ''bob'' \<rparr>),
                     (''10001'', \<lparr> username = ''guest-10001'', displayName = Some ''bob'' \<rparr>)],
     registeredNicks := [(''bob'', ''pw2'')],
     nickOwners := [(''bob'', ''guest-10001'')] \<rparr>"

text \<open>
  One session, and the message that \<^verbatim>\<open>sendMessage("")\<close> on session 10000 stores at
  time 5.
\<close>

definition emptyBodyState :: ChatState where
  "emptyBodyState = oneSessionState\<lparr>
     messages := [\<lparr> msgFrom = ''guest-10000'', body = [], timestamp = 5 \<rparr>] \<rparr>"

definition emptyBodyStorage :: Storage where
  "emptyBodyStorage = \<lparr> chatState = Some (chatStateJson emptyBodyState),
     callCount = Some 2, lastRequest = None, lastResponse = None \<rparr>"

text \<open>
  A stored document whose \<^verbatim>\<open>nextSessionCapId\<close> is \<open>2^53\<close> and which has no session, and
  the state that one \<^verbatim>\<open>auth\<close> makes of it: the session \<open>2^53\<close>, and \<^verbatim>\<open>nextSessionCapId\<close>
  still \<open>2^53\<close>.
\<close>

definition lastIdStorage :: Storage where
  "lastIdStorage = \<lparr> chatState = Some (JObj [(''nextSessionCapId'', JNum 9007199254740992)]),
     callCount = None, lastRequest = None, lastResponse = None \<rparr>"

definition saturatedState :: ChatState where
  "saturatedState = DEFAULT_CHAT_STATE\<lparr>
     nextSessionCapId := 9007199254740992,
     sessionCaps := [(''9007199254740992'',
        \<lparr> username = ''guest-9007199254740992'', displayName = None \<rparr>)] \<rparr>"

definition saturatedStorage :: Storage where
  "saturatedStorage = \<lparr> chatState = Some (chatStateJson saturatedState),
     callCount = Some 1, lastRequest = None, lastResponse = None \<rparr>"

definition secondClientThrows :: "client \<Rightarrow> Message \<Rightarrow> bool" where
  "secondClientThrows c m = (c \<noteq> 2)"

definition alwaysReceives :: "client \<Rightarrow> Message \<Rightarrow> bool" where
  "alwaysReceives c m = True"

text \<open>
  A \<^verbatim>\<open>storeNickToken\<close> batch on session 10000 with the given string as its argument.
\<close>

definition storeTokenRequest :: "string \<Rightarrow> string" where
  \<open>storeTokenRequest raw =
     batch (''["push",["call",10000,["storeNickToken"],["'' @ raw @ ''"]]]'') ''["pull",1]''\<close>

section \<open>Properties of the decoder\<close>

text \<open>
  The shape the specification gives for a recognised batch: the first operation is
  \<^verbatim>\<open>["push", ["call", <capabilityId:number>, [<method:string>, ...], [<args...>]]]\<close>, the
  second \<^verbatim>\<open>["pull", <importId:number>]\<close>.
\<close>

definition isNumber :: "jsval \<Rightarrow> bool" where
  "isNumber v = (case v of JNum _ \<Rightarrow> True | _ \<Rightarrow> False)"

definition isString :: "jsval \<Rightarrow> bool" where
  "isString v = (case v of JStr _ \<Rightarrow> True | _ \<Rightarrow> False)"

definition isArray :: "jsval \<Rightarrow> bool" where
  "isArray v = (case v of JArr _ \<Rightarrow> True | _ \<Rightarrow> False)"

definition expectedShape :: "jsval \<Rightarrow> jsval \<Rightarrow> bool" where
  "expectedShape pushOp pullOp =
     (case (pushOp, pullOp) of
        (JArr pushA, JArr pullA) \<Rightarrow>
          js_index pushA 0 = JStr ''push'' \<and> js_index pullA 0 = JStr ''pull''
          \<and> isNumber (js_index pullA 1)
          \<and> (case js_index pushA 1 of
                JArr callOp \<Rightarrow>
                  js_index callOp 0 = JStr ''call'' \<and> isNumber (js_index callOp 1)
                  \<and> (case js_index callOp 2 of
                        JArr path \<Rightarrow> isString (js_index path 0) | _ \<Rightarrow> False)
                  \<and> isArray (js_index callOp 3)
              | _ \<Rightarrow> False)
      | _ \<Rightarrow> False)"

lemma asArray_Some: "asArray v = Some xs \<longleftrightarrow> v = JArr xs"
  by (cases v) (simp_all add: asArray_def)

lemma asNumber_Some: "asNumber v = Some n \<longleftrightarrow> v = JNum n"
  by (cases v) (simp_all add: asNumber_def)

lemma check_Some: "check b = Some u \<longleftrightarrow> b"
  by (simp add: check_def)

lemma methodOf_Some:
  "methodOf path = Some m \<longleftrightarrow> (\<exists>p. path = JArr p \<and> js_index p 0 = JStr m \<and> m \<noteq> [])"
  by (cases path) (auto simp: methodOf_def split: jsval.splits)

lemma decodeChatBatch_Some:
  "decodeChatBatch parse payload = Some call \<longleftrightarrow>
     (\<exists>line0 line1 pushA pullA callOp path.
        payloadLines payload = [line0, line1]
        \<and> parse line0 = Some (JArr pushA) \<and> parse line1 = Some (JArr pullA)
        \<and> js_index pushA 0 = JStr ''push'' \<and> js_index pullA 0 = JStr ''pull''
        \<and> js_index pullA 1 = JNum (importId call)
        \<and> js_index pushA 1 = JArr callOp \<and> js_index callOp 0 = JStr ''call''
        \<and> js_index callOp 1 = JNum (capabilityId call)
        \<and> js_index callOp 2 = JArr path \<and> js_index path 0 = JStr (methodName call)
        \<and> methodName call \<noteq> []
        \<and> js_index callOp 3 = JArr (args call))"
  (is "?L \<longleftrightarrow> ?R")
proof
  assume ?L
  then obtain line0 line1 where lines: "payloadLines payload = [line0, line1]"
    by (auto simp: decodeChatBatch_def split: list.splits)
  with \<open>?L\<close> show ?R
    by (auto simp: decodeChatBatch_def bind_eq_Some_conv asArray_Some asNumber_Some
        check_Some methodOf_Some)
next
  assume ?R
  then show ?L
    by (cases call)
       (auto simp: decodeChatBatch_def bind_eq_Some_conv asArray_Some asNumber_Some
        check_Some methodOf_Some)
qed

lemma decodeChatBatch_expected:
  assumes "decodeChatBatch parse payload = Some call"
  shows "\<exists>pushOp pullOp. map parse (payloadLines payload) = [Some pushOp, Some pullOp]
           \<and> expectedShape pushOp pullOp"
proof -
  from assms obtain line0 line1 pushA pullA callOp path where
    "payloadLines payload = [line0, line1]"
    "parse line0 = Some (JArr pushA)" "parse line1 = Some (JArr pullA)"
    "js_index pushA 0 = JStr ''push''" "js_index pullA 0 = JStr ''pull''"
    "js_index pullA 1 = JNum (importId call)"
    "js_index pushA 1 = JArr callOp" "js_index callOp 0 = JStr ''call''"
    "js_index callOp 1 = JNum (capabilityId call)"
    "js_index callOp 2 = JArr path" "js_index path 0 = JStr (methodName call)"
    "js_index callOp 3 = JArr (args call)"
    unfolding decodeChatBatch_Some by blast
  then show ?thesis
    by (simp add: expectedShape_def isNumber_def isString_def isArray_def)
qed

lemma tryHandleChatBatch_not_recognized:
  "decodeChatBatch parse payload = None \<Longrightarrow>
   tryHandleChatBatch parse receive now payload (server, state) = Some (None, server, state)"
  by (simp add: tryHandleChatBatch_def)

text \<open>
  Claim C7. A payload that does not have exactly two non-empty trimmed lines, or has a line
  that \<^verbatim>\<open>JSON.parse\<close> rejects, or whose two parsed operations do not have the expected
  shape, makes \<^verbatim>\<open>tryHandleChatBatch\<close> return \<^verbatim>\<open>null\<close>; the server instance and the
  storage are left as they were. The handler has no other outcome on such a payload: it
  returns, and the only operation of this part of the source that can throw is
  \<^verbatim>\<open>JSON.parse\<close>, inside its \<^verbatim>\<open>try\<close> block.
\<close>

theorem malformed_batch_not_recognized:
  assumes "length (payloadLines payload) \<noteq> 2
     \<or> (\<exists>line \<in> set (payloadLines payload). parse line = None)
     \<or> (\<exists>pushOp pullOp. map parse (payloadLines payload) = [Some pushOp, Some pullOp]
           \<and> \<not> expectedShape pushOp pullOp)"
  shows "tryHandleChatBatch parse receive now payload (server, state) = Some (None, server, state)"
proof -
  have "decodeChatBatch parse payload = None"
  proof (rule ccontr)
    assume "decodeChatBatch parse payload \<noteq> None"
    then obtain call where call: "decodeChatBatch parse payload = Some call" by blast
    have "\<exists>pushOp pullOp. map parse (payloadLines payload) = [Some pushOp, Some pullOp]
           \<and> expectedShape pushOp pullOp"
      by (rule decodeChatBatch_expected [OF call])
    then obtain pushOp pullOp where
      shape: "map parse (payloadLines payload) = [Some pushOp, Some pullOp]"
      and expected: "expectedShape pushOp pullOp"
      by auto
    from shape have "length (map parse (payloadLines payload)) = 2" by simp
    then have len: "length (payloadLines payload) = 2" by simp
    have "parse line \<noteq> None" if "line \<in> set (payloadLines payload)" for line
    proof -
      from that have "parse line \<in> set (map parse (payloadLines payload))" by simp
      with shape show ?thesis by auto
    qed
    then have all: "\<forall>line \<in> set (payloadLines payload). parse line \<noteq> None" by blast
    with assms len shape expected show False by auto
  qed
  then show ?thesis
    by (rule tryHandleChatBatch_not_recognized)
qed

theorem malformed_batch_not_recognized_witness:
  "length (payloadLines ''hello'') \<noteq> 2
   \<and> tryHandleChatBatch sampleParse alwaysReceives 5 ''hello'' (None, emptyStorage)
       = Some (None, None, emptyStorage)"
proof -
  have h: "length (payloadLines ''hello'') \<noteq> 2"
    by code_simp
  from h malformed_batch_not_recognized [of "''hello''" sampleParse alwaysReceives 5 None emptyStorage]
  show ?thesis by simp
qed

section \<open>Properties of the dispatch\<close>

text \<open>The value \<^verbatim>\<open>nextCount\<close> of the handler.\<close>

definition nextCallCount :: "Storage \<Rightarrow> int" where
  "nextCallCount state = js_inc (case callCount state of Some n \<Rightarrow> n | None \<Rightarrow> 0)"

lemma tryHandleChatBatch_dispatched:
  assumes "decodeChatBatch parse payload = Some call"
    and "dispatchChatCall receive now server call (loadChatState now state)
           = Some (res, cs, mutated, server')"
  shows "tryHandleChatBatch parse receive now payload (server, state) =
    Some (Some \<lparr> responseText = JSON_stringify (replyOf (importId call) res),
                  callCountHeader = String_num (nextCallCount state) \<rparr>,
          server',
          (if mutated then persistChatState state cs else state)
            \<lparr> callCount := Some (nextCallCount state),
              lastRequest := Some payload,
              lastResponse := Some (JSON_stringify (replyOf (importId call) res)) \<rparr>)"
  using assms
  by (simp add: tryHandleChatBatch_def Let_def nextCallCount_def persistChatState_def)

lemma tryHandleChatBatch_hangs:
  assumes "decodeChatBatch parse payload = Some call"
    and "dispatchChatCall receive now server call (loadChatState now state) = None"
  shows "tryHandleChatBatch parse receive now payload (server, state) = None"
  using assms by (simp add: tryHandleChatBatch_def)

subsection \<open>The increment and the allocation loop\<close>

lemma js_inc_exact: "- (2 ^ 53) \<le> x \<Longrightarrow> x < 2 ^ 53 \<Longrightarrow> js_inc x = x + 1"
  by (simp add: js_inc_def)

lemma js_inc_limit: "js_inc (2 ^ 53) = 2 ^ 53"
  by (simp add: js_inc_def)

lemma probe_free: "map_of caps (String_num i) = None \<Longrightarrow> probeSessionCapId caps i = Some i"
  by (subst probeSessionCapId.simps) simp

lemma probe_taken:
  "map_of caps (String_num i) \<noteq> None
   \<Longrightarrow> probeSessionCapId caps i = probeSessionCapId caps (js_inc i)"
  by (subst probeSessionCapId.simps) simp

text \<open>
  When the loop ends, the id it ends on is not a key; and where the increment does not
  move, it can only end at once.
\<close>

lemma probe_result:
  assumes "probeSessionCapId caps i = Some c"
  shows "map_of caps (String_num c) = None \<and> (js_inc i = i \<longrightarrow> c = i)"
proof (rule probeSessionCapId.raw_induct
    [where P = "\<lambda>caps i c. map_of caps (String_num c) = None \<and> (js_inc i = i \<longrightarrow> c = i)",
     OF _ assms])
  fix probe :: "(string \<times> SessionInfo) list \<Rightarrow> int \<Rightarrow> int option"
    and caps :: "(string \<times> SessionInfo) list" and i c :: int
  assume IH: "\<And>caps i c. probe caps i = Some c
      \<Longrightarrow> map_of caps (String_num c) = None \<and> (js_inc i = i \<longrightarrow> c = i)"
    and step: "(if map_of caps (String_num i) \<noteq> None then probe caps (js_inc i) else Some i) = Some c"
  show "map_of caps (String_num c) = None \<and> (js_inc i = i \<longrightarrow> c = i)"
  proof (cases "map_of caps (String_num i) = None")
    case True
    with step show ?thesis by auto
  next
    case False
    with step have "probe caps (js_inc i) = Some c" by simp
    from IH [OF this] show ?thesis by auto
  qed
qed

lemma probe_stuck:
  assumes "map_of caps (String_num i) \<noteq> None" and "js_inc i = i"
  shows "probeSessionCapId caps i = None"
proof (rule ccontr)
  assume "probeSessionCapId caps i \<noteq> None"
  then obtain c where c: "probeSessionCapId caps i = Some c" by auto
  from probe_result [OF c] assms(2) have "map_of caps (String_num i) = None" by auto
  with assms(1) show False by simp
qed

text \<open>
  From an id of at most \<open>2^53\<close>, with the key \<open>2^53\<close> free, the loop ends, on the first id
  that is not a key.
\<close>

lemma probe_returns:
  assumes "- (2 ^ 53) \<le> i" and "i \<le> 2 ^ 53"
    and "map_of caps (String_num (2 ^ 53)) = None"
  shows "\<exists>c. probeSessionCapId caps i = Some c \<and> i \<le> c \<and> c \<le> 2 ^ 53
           \<and> map_of caps (String_num c) = None
           \<and> (\<forall>j. i \<le> j \<and> j < c \<longrightarrow> map_of caps (String_num j) \<noteq> None)"
  using assms(1,2)
proof (induction "nat (2 ^ 53 - i)" arbitrary: i)
  case 0
  then have "i = 2 ^ 53" by simp
  with assms(3) probe_free [of caps i] show ?case by auto
next
  case (Suc n)
  show ?case
  proof (cases "map_of caps (String_num i) = None")
    case True
    with Suc.prems probe_free [of caps i] show ?thesis by auto
  next
    case False
    from Suc.hyps(2) Suc.prems have lt: "i < 2 ^ 53" by simp
    with Suc.prems have inc: "js_inc i = i + 1" by (simp add: js_inc_exact)
    from Suc.hyps(2) have "n = nat (2 ^ 53 - (i + 1))" by simp
    from Suc.hyps(1) [OF this] Suc.prems lt
    obtain c where c: "probeSessionCapId caps (i + 1) = Some c" "i + 1 \<le> c" "c \<le> 2 ^ 53"
      "map_of caps (String_num c) = None"
      and before: "\<forall>j. i + 1 \<le> j \<and> j < c \<longrightarrow> map_of caps (String_num j) \<noteq> None"
      by auto
    have "map_of caps (String_num j) \<noteq> None" if "i \<le> j" and "j < c" for j
    proof (cases "j = i")
      case True
      with False show ?thesis by simp
    next
      case False
      with that before show ?thesis by simp
    qed
    with False inc c show ?thesis
      by (simp add: probe_taken)
  qed
qed

lemma keys_obj_put: "fst ` set (obj_put k v kvs) = insert k (fst ` set kvs)"
  by (induction kvs) force+

lemma obj_put_fresh: "k \<notin> fst ` set kvs \<Longrightarrow> obj_put k v kvs = kvs @ [(k, v)]"
  by (induction kvs) auto

lemma map_of_obj_put: "map_of (obj_put k v kvs) = (map_of kvs)(k \<mapsto> v)"
  by (induction kvs) (auto simp: fun_eq_iff)

lemma keys_obj_set:
  "fst ` set (obj_set k v kvs) = (if k = ''__proto__'' then fst ` set kvs else insert k (fst ` set kvs))"
  by (simp add: obj_set_def keys_obj_put)

lemma obj_set_fresh:
  "k \<noteq> ''__proto__'' \<Longrightarrow> k \<notin> fst ` set kvs \<Longrightarrow> obj_set k v kvs = kvs @ [(k, v)]"
  by (simp add: obj_set_def obj_put_fresh)

lemma map_of_obj_set:
  "k \<noteq> ''__proto__'' \<Longrightarrow> map_of (obj_set k v kvs) = (map_of kvs)(k \<mapsto> v)"
  by (simp add: obj_set_def map_of_obj_put)

lemma load_empty: "loadChatState now emptyStorage = DEFAULT_CHAT_STATE"
  by (simp add: loadChatState_def emptyStorage_def cloneDefaultChatState_def)

lemma normalize_next_ge:
  "SESSION_CAPABILITY_START \<le> nextSessionCapId (normalizeChatState now parsed)"
  by (simp add: normalizeChatState_def Let_def normalizeNextSessionCapId_def
      cloneDefaultChatState_def DEFAULT_CHAT_STATE_def split: jsval.splits)

lemma load_next_ge: "SESSION_CAPABILITY_START \<le> nextSessionCapId (loadChatState now state)"
  by (simp add: loadChatState_def normalize_next_ge cloneDefaultChatState_def
      DEFAULT_CHAT_STATE_def split: option.splits)

text \<open>
  \<^verbatim>\<open>auth\<close>, once the loop has ended on \<open>capId\<close>.
\<close>

lemma dispatch_auth:
  assumes "capabilityId call = CHAT_CAPABILITY_ID"
    and "methodName call = ''auth''"
    and "args call = JStr user # rest"
    and "probeSessionCapId (sessionCaps cs) (nextSessionCapId cs) = Some capId"
  shows "dispatchChatCall receive now server call cs =
      Some (Success (JObj [(''session'', capabilityJson capId),
                           (''user'', JStr (''guest-'' @ String_num capId))]),
            cs\<lparr> nextSessionCapId := js_inc capId,
                sessionCaps := sessionCaps cs @ [(String_num capId,
                   \<lparr> username = ''guest-'' @ String_num capId, displayName = None \<rparr>)] \<rparr>,
            True, server)"
proof -
  from probe_result [OF assms(4)] have "String_num capId \<notin> fst ` set (sessionCaps cs)"
    by (simp add: map_of_eq_None_iff)
  then have "obj_set (String_num capId) v (sessionCaps cs) = sessionCaps cs @ [(String_num capId, v)]"
    for v
    by (simp add: obj_set_fresh String_num_not_proto)
  with assms show ?thesis
    by (simp add: dispatchChatCall_def chatCapabilityCall_def authCall_def withServer_def Let_def)
qed

lemma dispatch_auth_hangs:
  assumes "capabilityId call = CHAT_CAPABILITY_ID"
    and "methodName call = ''auth''"
    and "args call = JStr user # rest"
    and "probeSessionCapId (sessionCaps cs) (nextSessionCapId cs) = None"
  shows "dispatchChatCall receive now server call cs = None"
  using assms
  by (simp add: dispatchChatCall_def chatCapabilityCall_def authCall_def)

text \<open>
  Claim C1. A decoded batch whose capability id is not the chat capability id 2 and is
  not a key of \<^verbatim>\<open>sessionCaps\<close> is answered with the line
  \<^verbatim>\<open>["error", importId, {"message": "unknown session capability"}]\<close>, an error envelope
  and not a result envelope; the server instance is not touched and the stored
  \<^verbatim>\<open>chatState\<close> document is the one that was there before.
\<close>

theorem unknown_capability_error:
  assumes "decodeChatBatch parse payload = Some call"
    and "capabilityId call \<noteq> CHAT_CAPABILITY_ID"
    and "String_num (capabilityId call) \<notin> fst ` set (sessionCaps (loadChatState now state))"
  shows "\<exists>resp state'.
      tryHandleChatBatch parse receive now payload (server, state) = Some (Some resp, server, state')
    \<and> responseText resp = JSON_stringify (JArr [JStr ''error'', JNum (importId call),
          JObj [(''message'', JStr ''unknown session capability'')]])
    \<and> chatState state' = chatState state"
proof -
  from assms(3) have "map_of (sessionCaps (loadChatState now state)) (String_num (capabilityId call)) = None"
    by (simp add: map_of_eq_None_iff)
  with assms(2) have "dispatchChatCall receive now server call (loadChatState now state)
      = Some (Failure ''unknown session capability'', loadChatState now state, False, server)"
    by (simp add: dispatchChatCall_def)
  from tryHandleChatBatch_dispatched [OF assms(1) this] show ?thesis
    by (simp add: replyOf_def)
qed

theorem unknown_capability_error_witness:
  \<open>decodeChatBatch sampleParse (batch ''["push",["call",77,["whoami"],[]]]'' ''["pull",1]'')
      = Some \<lparr> importId = 1, capabilityId = 77, methodName = ''whoami'', args = [] \<rparr>
   \<and> (\<exists>resp state'.
      tryHandleChatBatch sampleParse alwaysReceives 5
          (batch ''["push",["call",77,["whoami"],[]]]'' ''["pull",1]'') (None, emptyStorage)
        = Some (Some resp, None, state')
    \<and> responseText resp = ''["error",1,{"message":"unknown session capability"}]''
    \<and> chatState state' = chatState emptyStorage)\<close>
proof -
  let ?call = "\<lparr> importId = 1, capabilityId = 77, methodName = ''whoami'', args = [] \<rparr>"
  have d: \<open>decodeChatBatch sampleParse (batch ''["push",["call",77,["whoami"],[]]]'' ''["pull",1]'')
      = Some ?call\<close>
    by code_simp
  have c: "capabilityId ?call \<noteq> CHAT_CAPABILITY_ID"
    by (simp add: CHAT_CAPABILITY_ID_def)
  have k: "String_num (capabilityId ?call)
      \<notin> fst ` set (sessionCaps (loadChatState 5 emptyStorage))"
    by (simp add: loadChatState_def emptyStorage_def cloneDefaultChatState_def
        DEFAULT_CHAT_STATE_def)
  have s: \<open>JSON_stringify (JArr [JStr ''error'', JNum 1,
          JObj [(''message'', JStr ''unknown session capability'')]])
       = ''["error",1,{"message":"unknown session capability"}]''\<close>
    by code_simp
  from unknown_capability_error [OF d c k, of alwaysReceives None] d s show ?thesis
    by simp
qed

text \<open>
  Claim C10, as amended. \<^verbatim>\<open>auth\<close> on the chat capability, with an argument list whose
  first element is a string, succeeds whenever the stored \<^verbatim>\<open>nextSessionCapId\<close> is at
  most \<open>2^53\<close> and no session is stored under the key \<open>2^53\<close>: the allocation loop ends on
  the first id from \<^verbatim>\<open>nextSessionCapId\<close> upwards that is not a key of \<^verbatim>\<open>sessionCaps\<close>,
  the new session is bound to the user name \<^verbatim>\<open>guest-<id>\<close>, and \<^verbatim>\<open>nextSessionCapId\<close>
  becomes the id plus one (below \<open>2^53\<close>; the double addition leaves \<open>2^53\<close> as it is).
  The answer and the stored state are given by the session table and
  \<^verbatim>\<open>nextSessionCapId\<close> alone: neither the user name supplied, nor the other arguments,
  nor the \<^verbatim>\<open>credentials\<close> table enter them.
\<close>

theorem auth_ignores_credentials:
  assumes "decodeChatBatch parse payload = Some call"
    and "capabilityId call = CHAT_CAPABILITY_ID"
    and "methodName call = ''auth''"
    and "args call = JStr user # rest"
    and "nextSessionCapId (loadChatState now state) \<le> 2 ^ 53"
    and "String_num (2 ^ 53) \<notin> fst ` set (sessionCaps (loadChatState now state))"
  shows "let cs = loadChatState now state
         in \<exists>capId resp state'.
               probeSessionCapId (sessionCaps cs) (nextSessionCapId cs) = Some capId
             \<and> nextSessionCapId cs \<le> capId \<and> capId \<le> 2 ^ 53
             \<and> String_num capId \<notin> fst ` set (sessionCaps cs)
             \<and> (\<forall>j. nextSessionCapId cs \<le> j \<and> j < capId
                    \<longrightarrow> String_num j \<in> fst ` set (sessionCaps cs))
             \<and> tryHandleChatBatch parse receive now payload (server, state)
                 = Some (Some resp, server, state')
             \<and> responseText resp = JSON_stringify (JArr [JStr ''result'', JNum (importId call),
                   JObj [(''session'', JObj [(''_type'', JStr ''capability''), (''id'', JNum capId)]),
                         (''user'', JStr (''guest-'' @ String_num capId))]])
             \<and> chatState state' = Some (chatStateJson (cs\<lparr>
                   nextSessionCapId := js_inc capId,
                   sessionCaps := sessionCaps cs @ [(String_num capId,
                      \<lparr> username = ''guest-'' @ String_num capId, displayName = None \<rparr>)] \<rparr>))
             \<and> (capId < 2 ^ 53 \<longrightarrow> js_inc capId = capId + 1)"
proof -
  define cs where "cs = loadChatState now state"
  have lower: "- (2 ^ 53) \<le> nextSessionCapId cs"
    using load_next_ge [of now state]
    by (simp add: cs_def SESSION_CAPABILITY_START_def)
  from assms(6) have free: "map_of (sessionCaps cs) (String_num (2 ^ 53)) = None"
    by (simp add: cs_def map_of_eq_None_iff)
  from probe_returns [OF lower assms(5) [folded cs_def] free]
  obtain capId where p: "probeSessionCapId (sessionCaps cs) (nextSessionCapId cs) = Some capId"
    and ge: "nextSessionCapId cs \<le> capId" and le: "capId \<le> 2 ^ 53"
    and fresh: "map_of (sessionCaps cs) (String_num capId) = None"
    and first: "\<forall>j. nextSessionCapId cs \<le> j \<and> j < capId
        \<longrightarrow> map_of (sessionCaps cs) (String_num j) \<noteq> None"
    by blast
  from fresh have fresh': "String_num capId \<notin> fst ` set (sessionCaps cs)"
    by (simp add: map_of_eq_None_iff)
  from first have first': "\<forall>j. nextSessionCapId cs \<le> j \<and> j < capId
        \<longrightarrow> String_num j \<in> fst ` set (sessionCaps cs)"
    by (simp add: map_of_eq_None_iff)
  from lower ge have inc: "capId < 2 ^ 53 \<longrightarrow> js_inc capId = capId + 1"
    by (simp add: js_inc_exact)
  note d = dispatch_auth [OF assms(2-4) p, of receive now server]
  from tryHandleChatBatch_dispatched [OF assms(1) d [unfolded cs_def]]
  have "\<exists>resp state'.
      tryHandleChatBatch parse receive now payload (server, state) = Some (Some resp, server, state')
    \<and> responseText resp = JSON_stringify (JArr [JStr ''result'', JNum (importId call),
          JObj [(''session'', JObj [(''_type'', JStr ''capability''), (''id'', JNum capId)]),
                (''user'', JStr (''guest-'' @ String_num capId))]])
    \<and> chatState state' = Some (chatStateJson (cs\<lparr>
          nextSessionCapId := js_inc capId,
          sessionCaps := sessionCaps cs @ [(String_num capId,
             \<lparr> username = ''guest-'' @ String_num capId, displayName = None \<rparr>)] \<rparr>))"
    by (simp add: cs_def [symmetric] replyOf_def persistChatState_def capabilityJson_def)
  with p ge le fresh' first' inc show ?thesis
    unfolding Let_def cs_def [symmetric] by blast
qed

lemma decode_auth:
  \<open>decodeChatBatch sampleParse (batch ''["push",["call",2,["auth"],["zed","secret"]]]'' ''["pull",1]'')
     = Some \<lparr> importId = 1, capabilityId = 2, methodName = ''auth'',
               args = [JStr ''zed'', JStr ''secret''] \<rparr>\<close>
  by code_simp

theorem auth_ignores_credentials_witness:
  \<open>decodeChatBatch sampleParse (batch ''["push",["call",2,["auth"],["zed","secret"]]]'' ''["pull",1]'')
      = Some \<lparr> importId = 1, capabilityId = 2, methodName = ''auth'',
                args = [JStr ''zed'', JStr ''secret''] \<rparr>
   \<and> nextSessionCapId (loadChatState 5 emptyStorage) \<le> 2 ^ 53
   \<and> String_num (2 ^ 53) \<notin> fst ` set (sessionCaps (loadChatState 5 emptyStorage))
   \<and> (\<exists>resp state'.
      tryHandleChatBatch sampleParse alwaysReceives 5
          (batch ''["push",["call",2,["auth"],["zed","secret"]]]'' ''["pull",1]'') (None, emptyStorage)
        = Some (Some resp, None, state')
    \<and> responseText resp
        = ''["result",1,{"session":{"_type":"capability","id":10000},"user":"guest-10000"}]''
    \<and> chatState state' = Some (chatStateJson (DEFAULT_CHAT_STATE\<lparr>
          nextSessionCapId := 10001,
          sessionCaps := [(''10000'', \<lparr> username = ''guest-10000'', displayName = None \<rparr>)] \<rparr>)))\<close>
proof -
  let ?call = "\<lparr> importId = 1, capabilityId = 2, methodName = ''auth'',
                 args = [JStr ''zed'', JStr ''secret''] \<rparr>"
  let ?payload = \<open>batch ''["push",["call",2,["auth"],["zed","secret"]]]'' ''["pull",1]''\<close>
  have c: "capabilityId ?call = CHAT_CAPABILITY_ID"
    by (simp add: CHAT_CAPABILITY_ID_def)
  have m: "methodName ?call = ''auth''" by simp
  have a: "args ?call = JStr ''zed'' # [JStr ''secret'']" by simp
  have h1: "nextSessionCapId (loadChatState 5 emptyStorage) \<le> 2 ^ 53"
    by (simp add: load_empty DEFAULT_CHAT_STATE_def SESSION_CAPABILITY_START_def)
  have h2: "String_num (2 ^ 53) \<notin> fst ` set (sessionCaps (loadChatState 5 emptyStorage))"
    by (simp add: load_empty DEFAULT_CHAT_STATE_def)
  have e: "sessionCaps DEFAULT_CHAT_STATE = []" "nextSessionCapId DEFAULT_CHAT_STATE = 10000"
    by (simp_all add: DEFAULT_CHAT_STATE_def SESSION_CAPABILITY_START_def)
  from auth_ignores_credentials [OF decode_auth c m a h1 h2, of alwaysReceives None]
  obtain capId resp state' where
    p: "probeSessionCapId [] 10000 = Some capId"
    and t: "tryHandleChatBatch sampleParse alwaysReceives 5 ?payload (None, emptyStorage)
        = Some (Some resp, None, state')"
    and r: "responseText resp = JSON_stringify (JArr [JStr ''result'', JNum 1,
          JObj [(''session'', JObj [(''_type'', JStr ''capability''), (''id'', JNum capId)]),
                (''user'', JStr (''guest-'' @ String_num capId))]])"
    and st: "chatState state' = Some (chatStateJson (DEFAULT_CHAT_STATE\<lparr>
          nextSessionCapId := js_inc capId,
          sessionCaps := [(String_num capId,
             \<lparr> username = ''guest-'' @ String_num capId, displayName = None \<rparr>)] \<rparr>))"
    unfolding Let_def load_empty e by auto
  have "probeSessionCapId [] 10000 = Some 10000"
    by (simp add: probe_free)
  with p have capId: "capId = 10000" by simp
  have n: "String_num 10000 = ''10000''"
    by code_simp
  have i: "js_inc 10000 = 10001"
    by (simp add: js_inc_def)
  have s: \<open>JSON_stringify (JArr [JStr ''result'', JNum 1,
          JObj [(''session'', JObj [(''_type'', JStr ''capability''), (''id'', JNum 10000)]),
                (''user'', JStr ''guest-10000'')]])
       = ''["result",1,{"session":{"_type":"capability","id":10000},"user":"guest-10000"}]''\<close>
    by code_simp
  from t r st have \<open>\<exists>resp state'.
      tryHandleChatBatch sampleParse alwaysReceives 5 ?payload (None, emptyStorage)
        = Some (Some resp, None, state')
    \<and> responseText resp
        = ''["result",1,{"session":{"_type":"capability","id":10000},"user":"guest-10000"}]''
    \<and> chatState state' = Some (chatStateJson (DEFAULT_CHAT_STATE\<lparr>
          nextSessionCapId := 10001,
          sessionCaps := [(''10000'', \<lparr> username = ''guest-10000'', displayName = None \<rparr>)] \<rparr>))\<close>
    by (simp add: capId n i s)
  with decode_auth h1 h2 show ?thesis
    by simp
qed

text \<open>
  The claim C10 as it was stated has \<^verbatim>\<open>auth\<close> succeed for every argument list whose
  first element is a string, whatever the stored state. In \<open>saturatedStorage\<close> the
  stored \<^verbatim>\<open>nextSessionCapId\<close> is \<open>2^53\<close> and the key \<^verbatim>\<open>9007199254740992\<close> is taken: the
  loop tests that key, adds one, which leaves \<open>2^53\<close>, and tests the same key again. The
  handler does not return. That storage is what one \<^verbatim>\<open>auth\<close> leaves when it starts from
  a stored document with \<^verbatim>\<open>nextSessionCapId\<close> \<open>2^53\<close> and no session.
\<close>

lemma load_saturated: "loadChatState now saturatedStorage = saturatedState"
  by code_simp

lemma probe_saturated:
  "probeSessionCapId (sessionCaps saturatedState) (nextSessionCapId saturatedState) = None"
proof -
  have taken: "map_of (sessionCaps saturatedState) (String_num (nextSessionCapId saturatedState)) \<noteq> None"
    by code_simp
  have stay: "js_inc (nextSessionCapId saturatedState) = nextSessionCapId saturatedState"
    by (simp add: saturatedState_def js_inc_def)
  from taken stay show ?thesis
    by (rule probe_stuck)
qed

theorem auth_does_not_return_at_limit:
  \<open>tryHandleChatBatch sampleParse alwaysReceives 5
      (batch ''["push",["call",2,["auth"],["zed","secret"]]]'' ''["pull",1]'')
      (None, saturatedStorage) = None\<close>
proof -
  let ?call = "\<lparr> importId = 1, capabilityId = 2, methodName = ''auth'',
                 args = [JStr ''zed'', JStr ''secret''] \<rparr>"
  have "dispatchChatCall alwaysReceives 5 None ?call saturatedState = None"
    by (rule dispatch_auth_hangs [where user = "''zed''" and rest = "[JStr ''secret'']"])
       (simp_all add: CHAT_CAPABILITY_ID_def probe_saturated)
  then have "dispatchChatCall alwaysReceives 5 None ?call (loadChatState 5 saturatedStorage) = None"
    by (simp only: load_saturated)
  with decode_auth show ?thesis
    by (rule tryHandleChatBatch_hangs)
qed

lemma saturatedStorage_reachable:
  \<open>\<exists>resp state'.
     tryHandleChatBatch sampleParse alwaysReceives 4
       (batch ''["push",["call",2,["auth"],["zed","secret"]]]'' ''["pull",1]'')
       (None, lastIdStorage) = Some (Some resp, None, state')
   \<and> chatState state' = chatState saturatedStorage\<close>
proof -
  let ?call = "\<lparr> importId = 1, capabilityId = 2, methodName = ''auth'',
                 args = [JStr ''zed'', JStr ''secret''] \<rparr>"
  define cs where "cs = DEFAULT_CHAT_STATE\<lparr> nextSessionCapId := 9007199254740992 \<rparr>"
  have l: "loadChatState 4 lastIdStorage = cs"
    unfolding cs_def by code_simp
  have k: "String_num 9007199254740992 = ''9007199254740992''"
    by code_simp
  have "probeSessionCapId (sessionCaps cs) (nextSessionCapId cs) = Some 9007199254740992"
    by (simp add: cs_def DEFAULT_CHAT_STATE_def probe_free)
  from dispatch_auth [of ?call "''zed''" "[JStr ''secret'']", OF _ _ _ this, of alwaysReceives 4 None]
  have "dispatchChatCall alwaysReceives 4 None ?call (loadChatState 4 lastIdStorage) =
      Some (Success (JObj [(''session'', capabilityJson 9007199254740992),
                           (''user'', JStr ''guest-9007199254740992'')]),
            saturatedState, True, None)"
    by (simp add: l k CHAT_CAPABILITY_ID_def js_inc_def cs_def saturatedState_def DEFAULT_CHAT_STATE_def)
  from tryHandleChatBatch_dispatched [OF decode_auth this] show ?thesis
    by (simp add: persistChatState_def saturatedStorage_def)
qed

text \<open>
  Claim C9, as amended. Every batch that \<^verbatim>\<open>tryHandleChatBatch\<close> answers, with a result
  or an error envelope, sets \<^verbatim>\<open>lastRequest\<close> to the payload and \<^verbatim>\<open>lastResponse\<close> to the
  response line, and sets \<^verbatim>\<open>callCount\<close> to its old value (0 when absent) plus one,
  provided the old value is a whole number from \<open>-2^53\<close> to \<open>2^53 - 1\<close>, the range in
  which the double addition is exact; a batch it does not recognise leaves the storage
  and the server instance unchanged. The stats handler never writes: whether or not it
  answers, the storage is unchanged.
\<close>

theorem counters_follow_chat_dispatch:
  assumes "tryHandleChatBatch parse receive now payload (server, state)
             = Some (response, server', state')"
    and "- (2 ^ 53) \<le> (case callCount state of Some n \<Rightarrow> n | None \<Rightarrow> 0)"
    and "(case callCount state of Some n \<Rightarrow> n | None \<Rightarrow> 0) < 2 ^ 53"
  shows "(case response of
            Some resp \<Rightarrow>
                callCount state' = Some ((case callCount state of Some n \<Rightarrow> n | None \<Rightarrow> 0) + 1)
              \<and> lastRequest state' = Some payload
              \<and> lastResponse state' = Some (responseText resp)
          | None \<Rightarrow> state' = state \<and> server' = server)
       \<and> snd (tryHandleStatsBatch parse payload state) = state"
proof (cases "decodeChatBatch parse payload")
  case None
  with assms(1) show ?thesis
    by (simp add: tryHandleChatBatch_not_recognized tryHandleStatsBatch_def split: option.splits)
next
  case (Some call)
  show ?thesis
  proof (cases "dispatchChatCall receive now server call (loadChatState now state)")
    case None
    with Some assms(1) show ?thesis
      by (simp add: tryHandleChatBatch_hangs)
  next
    case inner: (Some r)
    obtain res cs mutated srv where r: "r = (res, cs, mutated, srv)"
      by (cases r)
    from assms(2,3) have "nextCallCount state = (case callCount state of Some n \<Rightarrow> n | None \<Rightarrow> 0) + 1"
      by (simp add: nextCallCount_def js_inc_exact)
    with tryHandleChatBatch_dispatched [OF Some inner [unfolded r]] assms(1) show ?thesis
      by (auto simp: persistChatState_def tryHandleStatsBatch_def split: option.splits)
  qed
qed

lemma decode_whoami_77:
  \<open>decodeChatBatch sampleParse (batch ''["push",["call",77,["whoami"],[]]]'' ''["pull",1]'')
      = Some \<lparr> importId = 1, capabilityId = 77, methodName = ''whoami'', args = [] \<rparr>\<close>
  by code_simp

lemma text_unknown_capability:
  \<open>JSON_stringify (replyOf 1 (Failure ''unknown session capability''))
     = ''["error",1,{"message":"unknown session capability"}]''\<close>
  by code_simp

lemma whoami_77_answer:
  assumes "chatState state = None"
  shows \<open>tryHandleChatBatch sampleParse alwaysReceives 5
      (batch ''["push",["call",77,["whoami"],[]]]'' ''["pull",1]'') (None, state)
    = Some (Some \<lparr> responseText = ''["error",1,{"message":"unknown session capability"}]'',
                    callCountHeader = String_num (nextCallCount state) \<rparr>,
            None,
            state\<lparr> callCount := Some (nextCallCount state),
                   lastRequest := Some (batch ''["push",["call",77,["whoami"],[]]]'' ''["pull",1]''),
                   lastResponse := Some ''["error",1,{"message":"unknown session capability"}]'' \<rparr>)\<close>
proof -
  let ?call = "\<lparr> importId = 1, capabilityId = 77, methodName = ''whoami'', args = [] \<rparr>"
  from assms have "loadChatState 5 state = DEFAULT_CHAT_STATE"
    by (simp add: loadChatState_def cloneDefaultChatState_def)
  then have "dispatchChatCall alwaysReceives 5 None ?call (loadChatState 5 state)
      = Some (Failure ''unknown session capability'', loadChatState 5 state, False, None)"
    by (simp add: dispatchChatCall_def DEFAULT_CHAT_STATE_def CHAT_CAPABILITY_ID_def)
  from tryHandleChatBatch_dispatched [OF decode_whoami_77 this] show ?thesis
    by (simp add: text_unknown_capability)
qed

theorem counters_follow_chat_dispatch_witness:
  \<open>(\<exists>resp state'.
      tryHandleChatBatch sampleParse alwaysReceives 5
        (batch ''["push",["call",77,["whoami"],[]]]'' ''["pull",1]'') (None, emptyStorage)
        = Some (Some resp, None, state')
      \<and> callCount state' = Some 1
      \<and> lastRequest state' = Some (batch ''["push",["call",77,["whoami"],[]]]'' ''["pull",1]'')
      \<and> lastResponse state' = Some (responseText resp))
   \<and> - (2 ^ 53) \<le> (case callCount emptyStorage of Some n \<Rightarrow> n | None \<Rightarrow> 0)
   \<and> (case callCount emptyStorage of Some n \<Rightarrow> n | None \<Rightarrow> (0 :: int)) < 2 ^ 53
   \<and> snd (tryHandleStatsBatch sampleParse
        (batch ''["push",["call",77,["whoami"],[]]]'' ''["pull",1]'') emptyStorage) = emptyStorage\<close>
proof -
  have t: \<open>tryHandleChatBatch sampleParse alwaysReceives 5
      (batch ''["push",["call",77,["whoami"],[]]]'' ''["pull",1]'') (None, emptyStorage)
    = Some (Some \<lparr> responseText = ''["error",1,{"message":"unknown session capability"}]'',
                    callCountHeader = String_num (nextCallCount emptyStorage) \<rparr>,
            None,
            emptyStorage\<lparr> callCount := Some (nextCallCount emptyStorage),
                   lastRequest := Some (batch ''["push",["call",77,["whoami"],[]]]'' ''["pull",1]''),
                   lastResponse := Some ''["error",1,{"message":"unknown session capability"}]'' \<rparr>)\<close>
    by (rule whoami_77_answer) (simp add: emptyStorage_def)
  have b1: "- (2 ^ 53) \<le> (case callCount emptyStorage of Some n \<Rightarrow> n | None \<Rightarrow> 0)"
    by (simp add: emptyStorage_def)
  have b2: "(case callCount emptyStorage of Some n \<Rightarrow> n | None \<Rightarrow> (0 :: int)) < 2 ^ 53"
    by (simp add: emptyStorage_def)
  from counters_follow_chat_dispatch [OF t b1 b2] t b1 b2 show ?thesis
    by (simp add: emptyStorage_def)
qed

text \<open>
  At \<open>2^53\<close> the count stays: the batch is answered, the header reports \<open>2^53\<close>, and the
  stored \<^verbatim>\<open>callCount\<close> is the one that was there.
\<close>

lemma callCount_stays_at_limit:
  \<open>\<exists>resp state'.
     tryHandleChatBatch sampleParse alwaysReceives 5
       (batch ''["push",["call",77,["whoami"],[]]]'' ''["pull",1]'')
       (None, emptyStorage\<lparr> callCount := Some 9007199254740992 \<rparr>)
       = Some (Some resp, None, state')
   \<and> callCount state' = Some 9007199254740992
   \<and> callCountHeader resp = ''9007199254740992''\<close>
proof -
  define state where "state = emptyStorage\<lparr> callCount := Some 9007199254740992 \<rparr>"
  have k: "String_num 9007199254740992 = ''9007199254740992''"
    by code_simp
  have n: "nextCallCount state = 9007199254740992"
    by (simp add: state_def nextCallCount_def js_inc_def)
  have c: "chatState state = None"
    by (simp add: state_def emptyStorage_def)
  from whoami_77_answer [OF c] show ?thesis
    unfolding state_def [symmetric] by (simp add: n k)
qed

text \<open>
  The claim C9 as it was stated counts the stats batch among the batches that increment
  \<^verbatim>\<open>callCount\<close>. On a storage whose \<^verbatim>\<open>callCount\<close> is 7, a stats batch is answered with a
  result envelope that reports 7, and the storage afterwards is the same: the count is
  still 7 and the last request and response are the old ones.
\<close>

theorem stats_batch_counterexample:
  \<open>tryHandleStatsBatch sampleParse (batch ''["push",["call",1,["stats"],[]]]'' ''["pull",1]'')
      \<lparr> chatState = None, callCount = Some 7, lastRequest = Some ''req'', lastResponse = Some ''resp'' \<rparr>
    = (Some \<lparr> responseText = ''["result",1,{"callCount":7,"lastRequest":"req","lastResponse":"resp"}]'',
               callCountHeader = ''7'' \<rparr>,
       \<lparr> chatState = None, callCount = Some 7, lastRequest = Some ''req'', lastResponse = Some ''resp'' \<rparr>)\<close>
  by code_simp

section \<open>sendMessage and the stored messages\<close>

text \<open>
  A stored message is read back as it was written when its \<^verbatim>\<open>from\<close> and \<^verbatim>\<open>body\<close> are
  not empty; \<^verbatim>\<open>normalizeChatState\<close> keeps an entry only \<^verbatim>\<open>if (from && body)\<close>.
\<close>

lemma normalizeMessage_messageJson:
  "msgFrom m \<noteq> [] \<Longrightarrow> body m \<noteq> [] \<Longrightarrow> normalizeMessage now (messageJson m) = [m]"
  by (cases m) (simp add: normalizeMessage_def messageJson_def js_prop_def)

lemma normalizeMessage_empty_body:
  "body m = [] \<Longrightarrow> normalizeMessage now (messageJson m) = []"
  by (cases m) (simp add: normalizeMessage_def messageJson_def js_prop_def)

lemma normalizeMessages_stored:
  "\<forall>m \<in> set ms. msgFrom m \<noteq> [] \<and> body m \<noteq> []
   \<Longrightarrow> normalizeMessages now (JArr (map messageJson ms)) = ms"
  by (induction ms) (simp_all add: normalizeMessages_def normalizeMessage_messageJson)

lemma messages_normalizeChatState:
  "isObject doc \<Longrightarrow> messages (normalizeChatState now doc) = normalizeMessages now (js_prop doc ''messages'')"
  by (simp add: normalizeChatState_def Let_def)

lemma js_prop_chatStateJson_messages:
  "js_prop (chatStateJson cs) ''messages'' = JArr (map messageJson (messages cs))"
  by (simp add: chatStateJson_def js_prop_def)

text \<open>
  \<^verbatim>\<open>sendMessage\<close> on a session capability that is a key of \<^verbatim>\<open>sessionCaps\<close>, called
  with exactly one string \<open>text\<close>, answers
  \<^verbatim>\<open>["result", importId, {"status": "ok", "echo": text}]\<close>. When every message of the
  stored document has a non-empty \<^verbatim>\<open>from\<close> and \<^verbatim>\<open>body\<close>, the document stored afterwards
  holds the same messages, in their order, followed by
  \<^verbatim>\<open>{from: displayName ?? username, body: text, timestamp: now}\<close>.
\<close>

lemma sendMessage_appends_to_stored:
  assumes "decodeChatBatch parse payload = Some call"
    and "capabilityId call \<noteq> CHAT_CAPABILITY_ID"
    and "map_of (sessionCaps (loadChatState now state)) (String_num (capabilityId call)) = Some sessionInfo"
    and "methodName call = ''sendMessage''"
    and "args call = [JStr text]"
    and "chatState state = Some doc"
    and "js_prop doc ''messages'' = JArr (map messageJson stored)"
    and "\<forall>m \<in> set stored. msgFrom m \<noteq> [] \<and> body m \<noteq> []"
  shows "\<exists>resp server' state' doc'.
      tryHandleChatBatch parse receive now payload (server, state) = Some (Some resp, server', state')
    \<and> responseText resp = JSON_stringify (JArr [JStr ''result'', JNum (importId call),
          JObj [(''status'', JStr ''ok''), (''echo'', JStr text)]])
    \<and> chatState state' = Some doc'
    \<and> js_prop doc' ''messages'' = JArr (map messageJson
          (stored @ [\<lparr> msgFrom = (case displayName sessionInfo of Some d \<Rightarrow> d
                                   | None \<Rightarrow> username sessionInfo),
                        body = text, timestamp = now \<rparr>]))"
proof -
  define cs where "cs = loadChatState now state"
  from assms(7) have "isObject doc"
    by (cases doc) (simp_all add: js_prop_def)
  with assms(6-8) have loaded: "messages cs = stored"
    by (simp add: cs_def loadChatState_def messages_normalizeChatState normalizeMessages_stored)
  obtain server' where "dispatchChatCall receive now server call cs =
      Some (Success (JObj [(''status'', JStr ''ok''), (''echo'', JStr text)]),
            cs\<lparr> messages := messages cs @ [\<lparr> msgFrom = displayIdentity sessionInfo, body = text,
                                              timestamp = now \<rparr>] \<rparr>,
            True, server')"
    using assms(2-5)
    by (simp add: dispatchChatCall_def sessionCall_def sendMessageCall_def Let_def cs_def)
  from tryHandleChatBatch_dispatched [OF assms(1) this [unfolded cs_def]] loaded show ?thesis
    by (simp add: cs_def replyOf_def persistChatState_def displayIdentity_def
        js_prop_chatStateJson_messages)
qed

text \<open>
  \<^verbatim>\<open>sendMessage\<close> accepts the empty string, and stores a message whose \<^verbatim>\<open>body\<close> is
  empty: \<open>emptyBodyStorage\<close> is what \<^verbatim>\<open>sendMessage("")\<close> on session 10000 at time 5
  leaves of \<open>oneSessionStorage\<close>.
\<close>

lemma decode_send_empty:
  \<open>decodeChatBatch sampleParse (batch ''["push",["call",10000,["sendMessage"],[""]]]'' ''["pull",1]'')
     = Some \<lparr> importId = 1, capabilityId = 10000, methodName = ''sendMessage'', args = [JStr []] \<rparr>\<close>
  by code_simp

lemma decode_send_hi:
  \<open>decodeChatBatch sampleParse (batch ''["push",["call",10000,["sendMessage"],["hi"]]]'' ''["pull",1]'')
     = Some \<lparr> importId = 1, capabilityId = 10000, methodName = ''sendMessage'', args = [JStr ''hi''] \<rparr>\<close>
  by code_simp

lemma load_oneSession: "loadChatState now oneSessionStorage = oneSessionState"
  by code_simp

lemma load_emptyBody: "loadChatState now emptyBodyStorage = oneSessionState"
  by code_simp

lemma dispatch_send_empty:
  "dispatchChatCall alwaysReceives 5 None
     \<lparr> importId = 1, capabilityId = 10000, methodName = ''sendMessage'', args = [JStr []] \<rparr>
     oneSessionState
   = Some (Success (JObj [(''status'', JStr ''ok''), (''echo'', JStr [])]), emptyBodyState, True, None)"
  by code_simp

lemma dispatch_send_hi:
  "dispatchChatCall alwaysReceives 6 None
     \<lparr> importId = 1, capabilityId = 10000, methodName = ''sendMessage'', args = [JStr ''hi''] \<rparr>
     oneSessionState
   = Some (Success (JObj [(''status'', JStr ''ok''), (''echo'', JStr ''hi'')]),
           oneSessionState\<lparr> messages := [\<lparr> msgFrom = ''guest-10000'', body = ''hi'', timestamp = 6 \<rparr>] \<rparr>,
           True, None)"
  by code_simp

lemma text_echo_empty:
  \<open>JSON_stringify (replyOf 1 (Success (JObj [(''status'', JStr ''ok''), (''echo'', JStr [])])))
    = ''["result",1,{"status":"ok","echo":""}]''\<close>
  by code_simp

lemma text_echo_hi:
  \<open>JSON_stringify (replyOf 1 (Success (JObj [(''status'', JStr ''ok''), (''echo'', JStr ''hi'')])))
    = ''["result",1,{"status":"ok","echo":"hi"}]''\<close>
  by code_simp

lemma emptyBodyStorage_reachable:
  \<open>tryHandleChatBatch sampleParse alwaysReceives 5
      (batch ''["push",["call",10000,["sendMessage"],[""]]]'' ''["pull",1]'')
      (None, oneSessionStorage)
    = Some (Some \<lparr> responseText = ''["result",1,{"status":"ok","echo":""}]'',
                    callCountHeader = ''2'' \<rparr>,
            None,
            emptyBodyStorage\<lparr>
              lastRequest := Some (batch ''["push",["call",10000,["sendMessage"],[""]]]'' ''["pull",1]''),
              lastResponse := Some ''["result",1,{"status":"ok","echo":""}]'' \<rparr>)\<close>
proof -
  have n: "nextCallCount oneSessionStorage = 2"
    by (simp add: nextCallCount_def oneSessionStorage_def js_inc_def)
  have k: "String_num 2 = ''2''"
    by code_simp
  show ?thesis
    apply (subst tryHandleChatBatch_dispatched [OF decode_send_empty
      dispatch_send_empty [folded load_oneSession [of 5]]])
    apply (simp only: ChatCall.select_convs text_echo_empty n k)
    apply (simp add: persistChatState_def oneSessionStorage_def emptyBodyStorage_def)
    done
qed

text \<open>
  Claim C5 at the failing input. The document of \<open>emptyBodyStorage\<close> holds one message,
  from \<^verbatim>\<open>guest-10000\<close> with the empty body and the timestamp 5. \<^verbatim>\<open>sendMessage("hi")\<close>
  on session 10000 at time 6 is answered with \<^verbatim>\<open>{status: "ok", echo: "hi"}\<close>, and the
  document stored afterwards holds one message, the new one: the message that was stored
  before is gone.
\<close>

theorem sendMessage_drops_stored_message:
  \<open>js_prop (chatStateJson emptyBodyState) ''messages''
      = JArr [JObj [(''from'', JStr ''guest-10000''), (''body'', JStr []), (''timestamp'', JNum 5)]]
   \<and> tryHandleChatBatch sampleParse alwaysReceives 6
      (batch ''["push",["call",10000,["sendMessage"],["hi"]]]'' ''["pull",1]'')
      (None, \<lparr> chatState = Some (chatStateJson emptyBodyState), callCount = Some 2,
                lastRequest = None, lastResponse = None \<rparr>)
    = Some (Some \<lparr> responseText = ''["result",1,{"status":"ok","echo":"hi"}]'',
                    callCountHeader = ''3'' \<rparr>,
            None,
            \<lparr> chatState = Some (chatStateJson (oneSessionState\<lparr>
                  messages := [\<lparr> msgFrom = ''guest-10000'', body = ''hi'', timestamp = 6 \<rparr>] \<rparr>)),
              callCount = Some 3,
              lastRequest = Some (batch ''["push",["call",10000,["sendMessage"],["hi"]]]'' ''["pull",1]''),
              lastResponse = Some ''["result",1,{"status":"ok","echo":"hi"}]'' \<rparr>)
   \<and> js_prop (chatStateJson (oneSessionState\<lparr>
          messages := [\<lparr> msgFrom = ''guest-10000'', body = ''hi'', timestamp = 6 \<rparr>] \<rparr>)) ''messages''
      = JArr [JObj [(''from'', JStr ''guest-10000''), (''body'', JStr ''hi''), (''timestamp'', JNum 6)]]\<close>
proof -
  have n: "nextCallCount emptyBodyStorage = 3"
    by (simp add: nextCallCount_def emptyBodyStorage_def js_inc_def)
  have k: "String_num 3 = ''3''"
    by code_simp
  have before: "js_prop (chatStateJson emptyBodyState) ''messages''
      = JArr [JObj [(''from'', JStr ''guest-10000''), (''body'', JStr []), (''timestamp'', JNum 5)]]"
    by (simp add: js_prop_chatStateJson_messages emptyBodyState_def messageJson_def)
  have after: "js_prop (chatStateJson (oneSessionState\<lparr>
          messages := [\<lparr> msgFrom = ''guest-10000'', body = ''hi'', timestamp = 6 \<rparr>] \<rparr>)) ''messages''
      = JArr [JObj [(''from'', JStr ''guest-10000''), (''body'', JStr ''hi''), (''timestamp'', JNum 6)]]"
    by (simp add: js_prop_chatStateJson_messages messageJson_def)
  have step: \<open>tryHandleChatBatch sampleParse alwaysReceives 6
      (batch ''["push",["call",10000,["sendMessage"],["hi"]]]'' ''["pull",1]'')
      (None, emptyBodyStorage)
    = Some (Some \<lparr> responseText = ''["result",1,{"status":"ok","echo":"hi"}]'',
                    callCountHeader = ''3'' \<rparr>,
            None,
            \<lparr> chatState = Some (chatStateJson (oneSessionState\<lparr>
                  messages := [\<lparr> msgFrom = ''guest-10000'', body = ''hi'', timestamp = 6 \<rparr>] \<rparr>)),
              callCount = Some 3,
              lastRequest = Some (batch ''["push",["call",10000,["sendMessage"],["hi"]]]'' ''["pull",1]''),
              lastResponse = Some ''["result",1,{"status":"ok","echo":"hi"}]'' \<rparr>)\<close>
    apply (subst tryHandleChatBatch_dispatched [OF decode_send_hi
      dispatch_send_hi [folded load_emptyBody [of 6]]])
    apply (simp only: ChatCall.select_convs text_echo_hi n k load_emptyBody)
    apply (simp add: persistChatState_def emptyBodyStorage_def)
    done
  from before step [unfolded emptyBodyStorage_def] after show ?thesis
    by (simp only: simp_thms)
qed

section \<open>Nickname registration and identification\<close>

lemma dispatch_session:
  assumes "capabilityId call \<noteq> CHAT_CAPABILITY_ID"
    and "map_of (sessionCaps cs) (String_num (capabilityId call)) = Some sessionInfo"
  shows "dispatchChatCall receive now server call cs
     = Some (sessionCall receive now server (capabilityId call) sessionInfo (methodName call)
               (args call) cs)"
  using assms by (simp add: dispatchChatCall_def)

text \<open>
  When the stored password of a nickname is not the empty string, \<^verbatim>\<open>registerNick\<close>
  rejects it with the value \<^verbatim>\<open>{status: "error", message: "Nickname already registered"}\<close>
  in a result envelope and writes nothing, and \<^verbatim>\<open>identifyNick\<close> with that password
  makes the calling session's user the owner and the nickname its display name (for a
  nickname other than \<^verbatim>\<open>__proto__\<close>, under which no owner can be stored).
\<close>

lemma registerNick_rejects_registered:
  assumes "decodeChatBatch parse payload = Some call"
    and "capabilityId call \<noteq> CHAT_CAPABILITY_ID"
    and "map_of (sessionCaps (loadChatState now state)) (String_num (capabilityId call)) = Some sessionInfo"
    and "methodName call = ''registerNick''"
    and "args call = [JStr nick, JStr password]"
    and "map_of (registeredNicks (loadChatState now state)) nick = Some stored"
    and "stored \<noteq> []"
  shows "\<exists>resp state'.
      tryHandleChatBatch parse receive now payload (server, state) = Some (Some resp, server, state')
    \<and> responseText resp = JSON_stringify (JArr [JStr ''result'', JNum (importId call),
          JObj [(''status'', JStr ''error''), (''message'', JStr ''Nickname already registered'')]])
    \<and> chatState state' = chatState state"
proof -
  have "dispatchChatCall receive now server call (loadChatState now state)
      = Some (Success (statusError ''Nickname already registered''), loadChatState now state,
              False, server)"
    using assms(4-7)
    by (simp add: dispatch_session [OF assms(2,3)] sessionCall_def registerNickCall_def
        truthyEntry_def withServer_def)
  from tryHandleChatBatch_dispatched [OF assms(1) this] show ?thesis
    by (simp add: replyOf_def statusError_def)
qed

lemma identifyNick_transfers_ownership:
  assumes "decodeChatBatch parse payload = Some call"
    and "capabilityId call \<noteq> CHAT_CAPABILITY_ID"
    and "map_of (sessionCaps (loadChatState now state)) (String_num (capabilityId call)) = Some sessionInfo"
    and "methodName call = ''identifyNick''"
    and "args call = [JStr nick, JStr password]"
    and "map_of (registeredNicks (loadChatState now state)) nick = Some password"
    and "password \<noteq> []"
    and "nick \<noteq> ''__proto__''"
  shows "\<exists>resp cs' state'.
      tryHandleChatBatch parse receive now payload (server, state) = Some (Some resp, server, state')
    \<and> responseText resp = JSON_stringify (JArr [JStr ''result'', JNum (importId call),
          JObj [(''status'', JStr ''ok''),
                (''message'', JStr (''Successfully identified as '' @ [CHR 0x27] @ nick @ [CHR 0x27]))]])
    \<and> chatState state' = Some (chatStateJson cs')
    \<and> map_of (nickOwners cs') nick = Some (username sessionInfo)
    \<and> map_of (sessionCaps cs') (String_num (capabilityId call))
        = Some (sessionInfo\<lparr> displayName := Some nick \<rparr>)"
proof -
  define cs where "cs = loadChatState now state"
  define cs' where "cs' = cs\<lparr> nickOwners := obj_set nick (username sessionInfo) (nickOwners cs),
       sessionCaps := obj_set (String_num (capabilityId call))
          (sessionInfo\<lparr> displayName := Some nick \<rparr>) (sessionCaps cs) \<rparr>"
  define res where "res = Success (statusOk (''Successfully identified as '' @ [CHR 0x27] @ nick @ [CHR 0x27]))"
  have "dispatchChatCall receive now server call cs = Some (res, cs', True, server)"
    using assms(4-7)
    by (simp add: dispatch_session [OF assms(2,3) [folded cs_def]] sessionCall_def identifyNickCall_def
        truthyEntry_def withServer_def cs_def [symmetric] cs'_def Let_def res_def)
  from tryHandleChatBatch_dispatched [OF assms(1) this [unfolded cs_def]]
  have step: "tryHandleChatBatch parse receive now payload (server, state)
      = Some (Some \<lparr> responseText = JSON_stringify (replyOf (importId call) res),
                      callCountHeader = String_num (nextCallCount state) \<rparr>,
              server,
              (persistChatState state cs')\<lparr> callCount := Some (nextCallCount state),
                 lastRequest := Some payload,
                 lastResponse := Some (JSON_stringify (replyOf (importId call) res)) \<rparr>)"
    by simp
  have owner: "map_of (nickOwners cs') nick = Some (username sessionInfo)"
    using assms(8) by (simp add: cs'_def map_of_obj_set)
  have sess: "map_of (sessionCaps cs') (String_num (capabilityId call))
        = Some (sessionInfo\<lparr> displayName := Some nick \<rparr>)"
    by (simp add: cs'_def map_of_obj_set String_num_not_proto)
  have rendered: "JSON_stringify (replyOf (importId call) res)
      = JSON_stringify (JArr [JStr ''result'', JNum (importId call),
          JObj [(''status'', JStr ''ok''),
                (''message'', JStr (''Successfully identified as '' @ [CHR 0x27] @ nick @ [CHR 0x27]))]])"
    by (simp add: res_def replyOf_def statusOk_def)
  have doc: "chatState ((persistChatState state cs')\<lparr> callCount := Some (nextCallCount state),
            lastRequest := Some payload,
            lastResponse := Some (JSON_stringify (replyOf (importId call) res)) \<rparr>)
      = Some (chatStateJson cs')"
    by (simp add: persistChatState_def)
  from step owner sess rendered doc show ?thesis
    by (metis Response.select_convs(1))
qed

text \<open>
  The test for a registered nickname is \<^verbatim>\<open>if (chatState.registeredNicks[nickname])\<close>,
  and \<^verbatim>\<open>registerNick\<close> accepts the empty string as a password. The storage
  \<open>emptyPasswordStorage\<close> is reached from the empty storage by two \<^verbatim>\<open>auth\<close> calls and
  \<^verbatim>\<open>registerNick("bob", "")\<close> on session 10000.
\<close>

lemma chat_step_depends_on_chatState:
  assumes "chatState st = chatState st'"
  shows "map_option (\<lambda>(response, srv', s). (srv', chatState s)) (tryHandleChatBatch p r n pl (srv, st))
       = map_option (\<lambda>(response, srv', s). (srv', chatState s)) (tryHandleChatBatch p r n pl (srv, st'))"
proof -
  from assms have l: "loadChatState n st = loadChatState n st'"
    by (simp add: loadChatState_def)
  show ?thesis
  proof (cases "decodeChatBatch p pl")
    case None
    with assms show ?thesis
      by (simp add: tryHandleChatBatch_not_recognized)
  next
    case (Some call)
    show ?thesis
    proof (cases "dispatchChatCall r n srv call (loadChatState n st')")
      case None
      from tryHandleChatBatch_hangs [OF Some None] tryHandleChatBatch_hangs [OF Some None [folded l]]
      show ?thesis by simp
    next
      case inner: (Some result)
      obtain res cs mutated srv' where result: "result = (res, cs, mutated, srv')"
        by (cases result)
      note d = inner [unfolded result]
      from tryHandleChatBatch_dispatched [OF Some d]
           tryHandleChatBatch_dispatched [OF Some d [folded l]] assms
      show ?thesis
        by (simp add: persistChatState_def)
    qed
  qed
qed

lemma runBatches_depends_on_chatState:
  "fst w = fst w' \<Longrightarrow> chatState (snd w) = chatState (snd w') \<Longrightarrow>
   map_option (\<lambda>(srv, s). (srv, chatState s)) (runBatches p r bs w)
     = map_option (\<lambda>(srv, s). (srv, chatState s)) (runBatches p r bs w')"
proof (induction bs arbitrary: w w')
  case Nil
  then show ?case by (simp add: prod_eq_iff case_prod_beta)
next
  case (Cons b bs)
  obtain n pl where b: "b = (n, pl)" by (cases b)
  obtain srv st where w: "w = (srv, st)" by (cases w)
  obtain srv' st' where w': "w' = (srv', st')" by (cases w')
  from Cons.prems w w' have same: "srv' = srv" and doc: "chatState st = chatState st'" by simp_all
  note step = chat_step_depends_on_chatState [OF doc, of p r n pl srv]
  show ?case
  proof (cases "tryHandleChatBatch p r n pl (srv, st)")
    case None
    with step have "tryHandleChatBatch p r n pl (srv, st') = None" by simp
    with None show ?thesis
      by (simp add: b w w' same)
  next
    case (Some out)
    with step obtain out' where out': "tryHandleChatBatch p r n pl (srv, st') = Some out'"
      by (cases "tryHandleChatBatch p r n pl (srv, st')") simp_all
    obtain resp1 srv1 st1 where o1: "out = (resp1, srv1, st1)" by (cases out)
    obtain resp2 srv2 st2 where o2: "out' = (resp2, srv2, st2)" by (cases out')
    from step Some out' have "srv1 = srv2" and "chatState st1 = chatState st2"
      by (simp_all add: o1 o2)
    then have "map_option (\<lambda>(srv, s). (srv, chatState s)) (runBatches p r bs (srv1, st1))
        = map_option (\<lambda>(srv, s). (srv, chatState s)) (runBatches p r bs (srv2, st2))"
      by (intro Cons.IH) simp_all
    with Some out' show ?thesis
      by (simp add: b w w' same o1 o2)
  qed
qed

lemma decode_register_empty:
  \<open>decodeChatBatch sampleParse (batch ''["push",["call",10000,["registerNick"],["bob",""]]]'' ''["pull",1]'')
     = Some \<lparr> importId = 1, capabilityId = 10000, methodName = ''registerNick'',
               args = [JStr ''bob'', JStr []] \<rparr>\<close>
  by code_simp

lemma decode_register_again:
  \<open>decodeChatBatch sampleParse (batch ''["push",["call",10001,["registerNick"],["bob","pw2"]]]'' ''["pull",1]'')
     = Some \<lparr> importId = 1, capabilityId = 10001, methodName = ''registerNick'',
               args = [JStr ''bob'', JStr ''pw2''] \<rparr>\<close>
  by code_simp

lemma decode_identify_empty:
  \<open>decodeChatBatch sampleParse (batch ''["push",["call",10001,["identifyNick"],["bob",""]]]'' ''["pull",1]'')
     = Some \<lparr> importId = 1, capabilityId = 10001, methodName = ''identifyNick'',
               args = [JStr ''bob'', JStr []] \<rparr>\<close>
  by code_simp

lemma load_twoSession: "loadChatState now twoSessionStorage = twoSessionState"
  by code_simp

lemma load_emptyPassword: "loadChatState now emptyPasswordStorage = emptyPasswordState"
  by code_simp

lemma dispatch_auth_1:
  "dispatchChatCall alwaysReceives 1 None
     \<lparr> importId = 1, capabilityId = 2, methodName = ''auth'', args = [JStr ''zed'', JStr ''secret''] \<rparr>
     DEFAULT_CHAT_STATE
   = Some (Success (JObj [(''session'', capabilityJson 10000), (''user'', JStr ''guest-10000'')]),
           oneSessionState, True, None)"
proof -
  let ?call = "\<lparr> importId = 1, capabilityId = 2, methodName = ''auth'',
                 args = [JStr ''zed'', JStr ''secret''] \<rparr>"
  have k: "String_num 10000 = ''10000''"
    by code_simp
  have "probeSessionCapId (sessionCaps DEFAULT_CHAT_STATE) (nextSessionCapId DEFAULT_CHAT_STATE)
      = Some 10000"
    by (simp add: DEFAULT_CHAT_STATE_def SESSION_CAPABILITY_START_def probe_free)
  from dispatch_auth [of ?call "''zed''" "[JStr ''secret'']", OF _ _ _ this, of alwaysReceives 1 None]
  show ?thesis
    by (simp add: CHAT_CAPABILITY_ID_def k js_inc_def oneSessionState_def DEFAULT_CHAT_STATE_def)
qed

lemma dispatch_auth_2:
  "dispatchChatCall alwaysReceives 2 None
     \<lparr> importId = 1, capabilityId = 2, methodName = ''auth'', args = [JStr ''zed'', JStr ''secret''] \<rparr>
     oneSessionState
   = Some (Success (JObj [(''session'', capabilityJson 10001), (''user'', JStr ''guest-10001'')]),
           twoSessionState, True, None)"
proof -
  let ?call = "\<lparr> importId = 1, capabilityId = 2, methodName = ''auth'',
                 args = [JStr ''zed'', JStr ''secret''] \<rparr>"
  have k: "String_num 10001 = ''10001''"
    by code_simp
  have "probeSessionCapId (sessionCaps oneSessionState) (nextSessionCapId oneSessionState)
      = Some 10001"
    by (simp add: oneSessionState_def probe_free k)
  from dispatch_auth [of ?call "''zed''" "[JStr ''secret'']", OF _ _ _ this, of alwaysReceives 2 None]
  show ?thesis
    by (simp add: CHAT_CAPABILITY_ID_def k js_inc_def oneSessionState_def twoSessionState_def
        DEFAULT_CHAT_STATE_def)
qed

lemma dispatch_register_empty:
  "dispatchChatCall alwaysReceives 3 None
     \<lparr> importId = 1, capabilityId = 10000, methodName = ''registerNick'', args = [JStr ''bob'', JStr []] \<rparr>
     twoSessionState
   = Some (Success (statusOk (''Nickname '' @ [CHR 0x27] @ ''bob'' @ [CHR 0x27]
                      @ '' registered successfully'')),
           emptyPasswordState, True, None)"
  by code_simp

lemma dispatch_register_again:
  "dispatchChatCall alwaysReceives 4 None
     \<lparr> importId = 1, capabilityId = 10001, methodName = ''registerNick'', args = [JStr ''bob'', JStr ''pw2''] \<rparr>
     emptyPasswordState
   = Some (Success (statusOk (''Nickname '' @ [CHR 0x27] @ ''bob'' @ [CHR 0x27]
                      @ '' registered successfully'')),
           takenOverState, True, None)"
  by code_simp

lemma dispatch_identify_empty:
  "dispatchChatCall alwaysReceives 4 None
     \<lparr> importId = 1, capabilityId = 10001, methodName = ''identifyNick'', args = [JStr ''bob'', JStr []] \<rparr>
     emptyPasswordState
   = Some (Success (statusError ''Nickname not registered''), emptyPasswordState, False, None)"
  by code_simp

lemma text_registered:
  \<open>JSON_stringify (replyOf 1 (Success (statusOk
       (''Nickname '' @ [CHR 0x27] @ ''bob'' @ [CHR 0x27] @ '' registered successfully''))))
    = ''["result",1,{"status":"ok","message":"Nickname 'bob' registered successfully"}]''\<close>
  by code_simp

lemma text_not_registered:
  \<open>JSON_stringify (replyOf 1 (Success (statusError ''Nickname not registered'')))
    = ''["result",1,{"status":"error","message":"Nickname not registered"}]''\<close>
  by code_simp

lemma emptyPasswordStorage_reachable:
  \<open>map_option (\<lambda>(srv, s). (srv, chatState s)) (runBatches sampleParse alwaysReceives
     [(1, batch ''["push",["call",2,["auth"],["zed","secret"]]]'' ''["pull",1]''),
      (2, batch ''["push",["call",2,["auth"],["zed","secret"]]]'' ''["pull",1]''),
      (3, batch ''["push",["call",10000,["registerNick"],["bob",""]]]'' ''["pull",1]'')]
     (None, emptyStorage)) = Some (None, chatState emptyPasswordStorage)\<close>
proof -
  let ?a = \<open>batch ''["push",["call",2,["auth"],["zed","secret"]]]'' ''["pull",1]''\<close>
  let ?r = \<open>batch ''["push",["call",10000,["registerNick"],["bob",""]]]'' ''["pull",1]''\<close>
  let ?view = "map_option (\<lambda>(srv :: Server option, s). (srv, chatState s))"
  obtain resp1 st1 where s1: "tryHandleChatBatch sampleParse alwaysReceives 1 ?a (None, emptyStorage)
      = Some (resp1, None, st1)" and d1: "chatState st1 = chatState oneSessionStorage"
    using tryHandleChatBatch_dispatched [OF decode_auth dispatch_auth_1 [folded load_empty [of 1]]]
    by (simp add: persistChatState_def oneSessionStorage_def)
  obtain resp2 st2 where s2: "tryHandleChatBatch sampleParse alwaysReceives 2 ?a (None, oneSessionStorage)
      = Some (resp2, None, st2)" and d2: "chatState st2 = chatState twoSessionStorage"
    using tryHandleChatBatch_dispatched [OF decode_auth dispatch_auth_2 [folded load_oneSession [of 2]]]
    by (simp add: persistChatState_def twoSessionStorage_def)
  obtain resp3 st3 where s3: "tryHandleChatBatch sampleParse alwaysReceives 3 ?r (None, twoSessionStorage)
      = Some (resp3, None, st3)" and d3: "chatState st3 = chatState emptyPasswordStorage"
    using tryHandleChatBatch_dispatched [OF decode_register_empty
        dispatch_register_empty [folded load_twoSession [of 3]]]
    by (simp add: persistChatState_def emptyPasswordStorage_def)
  have "?view (runBatches sampleParse alwaysReceives [(1, ?a), (2, ?a), (3, ?r)] (None, emptyStorage))
      = ?view (runBatches sampleParse alwaysReceives [(2, ?a), (3, ?r)] (None, st1))"
    by (simp add: s1)
  also have "\<dots> = ?view (runBatches sampleParse alwaysReceives [(2, ?a), (3, ?r)] (None, oneSessionStorage))"
    by (rule runBatches_depends_on_chatState) (simp_all add: d1)
  also have "\<dots> = ?view (runBatches sampleParse alwaysReceives [(3, ?r)] (None, st2))"
    by (simp add: s2)
  also have "\<dots> = ?view (runBatches sampleParse alwaysReceives [(3, ?r)] (None, twoSessionStorage))"
    by (rule runBatches_depends_on_chatState) (simp_all add: d2)
  also have "\<dots> = Some (None, chatState st3)"
    by (simp add: s3)
  finally show ?thesis
    by (simp add: d3)
qed

text \<open>
  Claim C2 at the failing input. In \<open>emptyPasswordStorage\<close> the nickname \<^verbatim>\<open>bob\<close> is
  present in \<^verbatim>\<open>registeredNicks\<close>, with the empty password and the owner
  \<^verbatim>\<open>guest-10000\<close>. \<^verbatim>\<open>registerNick("bob", "pw2")\<close> on session 10001 is answered with
  \<^verbatim>\<open>status: "ok"\<close>, and the stored state afterwards is \<open>takenOverState\<close>: the password
  is \<^verbatim>\<open>pw2\<close>, the owner \<^verbatim>\<open>guest-10001\<close>, and session 10001 displays as \<^verbatim>\<open>bob\<close>.
\<close>

theorem registerNick_empty_password_takeover:
  \<open>tryHandleChatBatch sampleParse alwaysReceives 4
      (batch ''["push",["call",10001,["registerNick"],["bob","pw2"]]]'' ''["pull",1]'')
      (None, emptyPasswordStorage)
    = Some (Some \<lparr> responseText
                 = ''["result",1,{"status":"ok","message":"Nickname 'bob' registered successfully"}]'',
               callCountHeader = ''4'' \<rparr>,
       None,
       \<lparr> chatState = Some (chatStateJson takenOverState), callCount = Some 4,
         lastRequest = Some (batch ''["push",["call",10001,["registerNick"],["bob","pw2"]]]'' ''["pull",1]''),
         lastResponse
           = Some ''["result",1,{"status":"ok","message":"Nickname 'bob' registered successfully"}]'' \<rparr>)\<close>
proof -
  have n: "String_num (nextCallCount emptyPasswordStorage) = ''4''"
    by code_simp
  show ?thesis
    apply (subst tryHandleChatBatch_dispatched [OF decode_register_again
      dispatch_register_again [folded load_emptyPassword [of 4]]])
    apply (simp only: ChatCall.select_convs text_registered n)
    apply (simp add: nextCallCount_def js_inc_def persistChatState_def emptyPasswordStorage_def)
    done
qed

text \<open>
  Claim C3 at the failing input. In the same storage, \<^verbatim>\<open>identifyNick("bob", "")\<close> on
  session 10001 supplies the stored password, and is answered with
  \<^verbatim>\<open>{status: "error", message: "Nickname not registered"}\<close>; the stored state is the one
  before the call, with owner \<^verbatim>\<open>guest-10000\<close>.
\<close>

theorem identifyNick_empty_password_rejected:
  \<open>tryHandleChatBatch sampleParse alwaysReceives 4
      (batch ''["push",["call",10001,["identifyNick"],["bob",""]]]'' ''["pull",1]'')
      (None, emptyPasswordStorage)
    = Some (Some \<lparr> responseText
                 = ''["result",1,{"status":"error","message":"Nickname not registered"}]'',
               callCountHeader = ''4'' \<rparr>,
       None,
       \<lparr> chatState = Some (chatStateJson emptyPasswordState), callCount = Some 4,
         lastRequest = Some (batch ''["push",["call",10001,["identifyNick"],["bob",""]]]'' ''["pull",1]''),
         lastResponse
           = Some ''["result",1,{"status":"error","message":"Nickname not registered"}]'' \<rparr>)\<close>
proof -
  have n: "String_num (nextCallCount emptyPasswordStorage) = ''4''"
    by code_simp
  show ?thesis
    apply (subst tryHandleChatBatch_dispatched [OF decode_identify_empty
      dispatch_identify_empty [folded load_emptyPassword [of 4]]])
    apply (simp only: ChatCall.select_convs text_not_registered n)
    apply (simp add: nextCallCount_def js_inc_def emptyPasswordStorage_def)
    done
qed

section \<open>The broadcast\<close>

lemma broadcastLoop_attempts:
  "attempts (broadcastLoop receive message cs srv) = attempts srv @ map (\<lambda>c. (c, message)) cs"
  by (induction cs arbitrary: srv) (simp_all add: Let_def)

lemma broadcastLoop_clients:
  "clients (broadcastLoop receive message cs srv)
     = filter (\<lambda>c. c \<notin> {c' \<in> set cs. \<not> receive c' message}) (clients srv)"
proof (induction cs arbitrary: srv)
  case Nil
  then show ?case by simp
next
  case (Cons c cs)
  show ?case
  proof (cases "receive c message")
    case True
    then show ?thesis
      by (auto simp: Cons.IH Let_def intro!: filter_cong)
  next
    case False
    then show ?thesis
      by (auto simp: Cons.IH Let_def removeAll_filter_not_eq intro!: filter_cong)
  qed
qed

lemma broadcastMessage_clients:
  "clients (broadcastMessage receive message srv) = filter (\<lambda>c. receive c message) (clients srv)"
  by (auto simp: broadcastMessage_def broadcastLoop_clients intro!: filter_cong)

lemma broadcastMessage_attempts:
  "attempts (broadcastMessage receive message srv)
     = attempts srv @ map (\<lambda>c. (c, message)) (clients srv)"
  by (simp add: broadcastMessage_def broadcastLoop_attempts)

text \<open>
  Claim C6. \<^verbatim>\<open>broadcastMessage\<close> calls \<^verbatim>\<open>receiveMessage\<close> once on every member of the
  client set, in order, whatever the outcome of the earlier calls, and the members left
  afterwards are those whose call did not throw. \<^verbatim>\<open>CapnWebDurable.sendMessage\<close> on a
  session capability that is a key of \<^verbatim>\<open>sessionCaps\<close> does the same with the new
  message and returns \<^verbatim>\<open>{status: "ok", echo: text}\<close>, whichever deliveries throw.
\<close>

theorem broadcast_reaches_every_member:
  assumes "map_of (sessionCaps (server_loadChatState now state)) (String_num capId) = Some sessionInfo"
  shows "attempts (broadcastMessage receive message srv)
           = attempts srv @ map (\<lambda>c. (c, message)) (clients srv)
       \<and> clients (broadcastMessage receive message srv)
           = filter (\<lambda>c. receive c message) (clients srv)
       \<and> (\<exists>srv' state'.
             CapnWebDurable_sendMessage receive now capId text (srv, state)
               = Inr (JObj [(''status'', JStr ''ok''), (''echo'', JStr text)], srv', state')
           \<and> attempts srv' = attempts srv
               @ map (\<lambda>c. (c, \<lparr> msgFrom = displayIdentity sessionInfo, body = text, timestamp = now \<rparr>))
                   (clients srv)
           \<and> clients srv' = filter (\<lambda>c. receive c
                 \<lparr> msgFrom = displayIdentity sessionInfo, body = text, timestamp = now \<rparr>) (clients srv))"
  using assms broadcastMessage_clients [of receive _ srv]
  by (simp add: broadcastMessage_attempts broadcastMessage_clients CapnWebDurable_sendMessage_def
      Let_def broadcastLoop_attempts broadcastMessage_def)

theorem broadcast_reaches_every_member_witness:
  "map_of (sessionCaps (server_loadChatState 5 oneSessionStorage)) (String_num 10000)
     = Some \<lparr> username = ''guest-10000'', displayName = None \<rparr>
   \<and> (\<exists>srv' state'.
        CapnWebDurable_sendMessage secondClientThrows 5 10000 ''hi''
          (\<lparr> clients = [1, 2, 3], attempts = [] \<rparr>, oneSessionStorage)
          = Inr (JObj [(''status'', JStr ''ok''), (''echo'', JStr ''hi'')], srv', state')
      \<and> attempts srv'
          = [(1, \<lparr> msgFrom = ''guest-10000'', body = ''hi'', timestamp = 5 \<rparr>),
             (2, \<lparr> msgFrom = ''guest-10000'', body = ''hi'', timestamp = 5 \<rparr>),
             (3, \<lparr> msgFrom = ''guest-10000'', body = ''hi'', timestamp = 5 \<rparr>)]
      \<and> clients srv' = [1, 3])"
proof -
  have k: "map_of (sessionCaps (server_loadChatState 5 oneSessionStorage)) (String_num 10000)
     = Some \<lparr> username = ''guest-10000'', displayName = None \<rparr>"
    by code_simp
  from broadcast_reaches_every_member [OF k, of secondClientThrows "\<lparr> msgFrom = ''guest-10000'', body = ''hi'', timestamp = 5 \<rparr>"
      "\<lparr> clients = [1, 2, 3], attempts = [] \<rparr>" "''hi''"] k
  show ?thesis
    by (simp add: displayIdentity_def secondClientThrows_def)
qed

section \<open>The session capability table\<close>

text \<open>
  The invariant of the specification: every key of \<^verbatim>\<open>sessionCaps\<close> is the decimal
  numeral of an integer that is at least \<^verbatim>\<open>SESSION_CAPABILITY_START\<close> and below
  \<^verbatim>\<open>nextSessionCapId\<close>.
\<close>

definition sessionKeyOk :: "int \<Rightarrow> string \<Rightarrow> bool" where
  "sessionKeyOk next k = (k = String_num (decToInt k)
     \<and> SESSION_CAPABILITY_START \<le> decToInt k \<and> decToInt k < next)"

definition capsInvariant :: "ChatState \<Rightarrow> bool" where
  "capsInvariant cs = list_all (\<lambda>(k, info). sessionKeyOk (nextSessionCapId cs) k) (sessionCaps cs)"

definition stalePersisted :: jsval where
  "stalePersisted = JObj [
     (''nextSessionCapId'', JNum 10000),
     (''sessionCaps'', JObj [(''7'', JObj [(''username'', JStr ''ann'')]),
                             (''10005'', JObj [(''username'', JStr ''ben'')])])]"

text \<open>
  What a method does to the keys of the session table: nothing, or the allocation of the
  id on which the loop has ended.
\<close>

definition keepsSessionKeys :: "ChatState \<Rightarrow> ChatState \<Rightarrow> bool" where
  "keepsSessionKeys cs cs' = (nextSessionCapId cs' = nextSessionCapId cs
     \<and> fst ` set (sessionCaps cs') = fst ` set (sessionCaps cs))"

definition allocatesSessionKey :: "int \<Rightarrow> ChatState \<Rightarrow> ChatState \<Rightarrow> bool" where
  "allocatesSessionKey capId cs cs' =
     (nextSessionCapId cs' = js_inc capId
      \<and> fst ` set (sessionCaps cs') = insert (String_num capId) (fst ` set (sessionCaps cs)))"

lemma decToInt_String_num: "0 \<le> n \<Longrightarrow> decToInt (String_num n) = n"
  by (simp add: String_num_def decToInt_decimal)

lemma sessionKeyOk_String_num:
  "SESSION_CAPABILITY_START \<le> n \<Longrightarrow> n < next \<Longrightarrow> sessionKeyOk next (String_num n)"
  by (simp add: sessionKeyOk_def decToInt_String_num SESSION_CAPABILITY_START_def)

lemma sessionKeyOk_mono: "sessionKeyOk next k \<Longrightarrow> next \<le> next' \<Longrightarrow> sessionKeyOk next' k"
  by (auto simp: sessionKeyOk_def)

lemma capsInvariant_iff:
  "capsInvariant cs \<longleftrightarrow> (\<forall>k \<in> fst ` set (sessionCaps cs). sessionKeyOk (nextSessionCapId cs) k)"
  by (auto simp: capsInvariant_def list_all_iff)

lemma set_js_order: "set (js_order kvs) = set kvs"
  by (auto simp: js_order_def)

text \<open>Under the invariant the id \<^verbatim>\<open>nextSessionCapId\<close> is not a key, and the loop ends at once.\<close>

lemma invariant_next_free:
  assumes "capsInvariant cs" and "SESSION_CAPABILITY_START \<le> nextSessionCapId cs"
  shows "map_of (sessionCaps cs) (String_num (nextSessionCapId cs)) = None"
proof (rule ccontr)
  assume "map_of (sessionCaps cs) (String_num (nextSessionCapId cs)) \<noteq> None"
  then have "String_num (nextSessionCapId cs) \<in> fst ` set (sessionCaps cs)"
    by (simp add: map_of_eq_None_iff)
  with assms(1) have "sessionKeyOk (nextSessionCapId cs) (String_num (nextSessionCapId cs))"
    unfolding capsInvariant_iff by blast
  then have "decToInt (String_num (nextSessionCapId cs)) < nextSessionCapId cs"
    by (simp add: sessionKeyOk_def)
  moreover from assms(2) have "decToInt (String_num (nextSessionCapId cs)) = nextSessionCapId cs"
    by (simp add: decToInt_String_num SESSION_CAPABILITY_START_def)
  ultimately show False by simp
qed

text \<open>Normalisation: the keys that come back are among the keys written.\<close>

lemma keys_collectEntries:
  "fst ` set (collectEntries accept entries target) \<subseteq> fst ` set entries \<union> fst ` set target"
proof (induction entries arbitrary: target)
  case Nil
  then show ?case by (simp add: collectEntries_def)
next
  case (Cons e entries)
  obtain key v where e: "e = (key, v)" by (cases e)
  define target' where "target' = (case accept v of Some x \<Rightarrow> obj_set key x target | None \<Rightarrow> target)"
  have step: "collectEntries accept (e # entries) target = collectEntries accept entries target'"
    by (simp add: collectEntries_def e target'_def)
  have "fst ` set target' \<subseteq> insert key (fst ` set target)"
    by (auto simp: target'_def keys_obj_set split: option.splits if_splits)
  with Cons.IH [of target'] show ?case
    unfolding step by (auto simp: e)
qed

lemma keys_normalizeSessionCaps:
  "fst ` set (normalizeSessionCaps (JObj kvs)) \<subseteq> fst ` set kvs"
  using keys_collectEntries [of normalizeSessionInfo "js_order kvs" "[]"]
  by (simp add: normalizeSessionCaps_def Object_entries_def set_js_order)

lemma js_prop_chatStateJson_sessionCaps:
  "js_prop (chatStateJson cs) ''sessionCaps''
     = JObj (map (\<lambda>(k, v). (k, sessionInfoJson v)) (js_order (sessionCaps cs)))"
  by (simp add: chatStateJson_def js_prop_def)

lemma js_prop_chatStateJson_next:
  "js_prop (chatStateJson cs) ''nextSessionCapId'' = JNum (nextSessionCapId cs)"
  by (simp add: chatStateJson_def js_prop_def)

lemma isObject_chatStateJson: "isObject (chatStateJson cs)"
  by (simp add: chatStateJson_def)

lemma reload_sessionCaps_keys:
  "fst ` set (sessionCaps (normalizeChatState now (chatStateJson cs))) \<subseteq> fst ` set (sessionCaps cs)"
proof -
  have "fst ` set (map (\<lambda>(k, v). (k, sessionInfoJson v)) (js_order (sessionCaps cs)))
      = fst ` set (sessionCaps cs)"
    by (force simp: set_js_order image_iff)
  with keys_normalizeSessionCaps
      [of "map (\<lambda>(k, v). (k, sessionInfoJson v)) (js_order (sessionCaps cs))"]
  show ?thesis
    by (simp add: normalizeChatState_def Let_def isObject_chatStateJson
        js_prop_chatStateJson_sessionCaps)
qed

lemma reload_nextSessionCapId:
  "nextSessionCapId (normalizeChatState now (chatStateJson cs))
     = max SESSION_CAPABILITY_START (nextSessionCapId cs)"
  by (simp add: normalizeChatState_def Let_def isObject_chatStateJson
      js_prop_chatStateJson_next normalizeNextSessionCapId_def)

lemma load_caps_clock:
  "sessionCaps (loadChatState now state) = sessionCaps (loadChatState now' state)
   \<and> nextSessionCapId (loadChatState now state) = nextSessionCapId (loadChatState now' state)"
  by (simp add: loadChatState_def normalizeChatState_def Let_def split: option.splits)

lemma capsInvariant_clock:
  "capsInvariant (loadChatState now state) = capsInvariant (loadChatState now' state)"
  using load_caps_clock [of now state now'] by (simp add: capsInvariant_def)

lemma capsInvariant_reload:
  assumes "capsInvariant cs" and "SESSION_CAPABILITY_START \<le> nextSessionCapId cs"
  shows "capsInvariant (normalizeChatState now (chatStateJson cs))"
proof -
  have "sessionKeyOk (nextSessionCapId cs) k"
    if "k \<in> fst ` set (sessionCaps (normalizeChatState now (chatStateJson cs)))" for k
  proof -
    from that reload_sessionCaps_keys [of now cs] have "k \<in> fst ` set (sessionCaps cs)"
      by (rule subsetD [rotated])
    with assms(1) show ?thesis
      unfolding capsInvariant_iff by (rule bspec)
  qed
  with assms(2) show ?thesis
    unfolding capsInvariant_iff reload_nextSessionCapId by simp
qed

lemma keepsSessionKeys_refl: "keepsSessionKeys cs cs"
  by (simp add: keepsSessionKeys_def)

lemma keeps_invariant:
  assumes "keepsSessionKeys cs cs'" and "capsInvariant cs"
  shows "capsInvariant cs' \<and> nextSessionCapId cs' = nextSessionCapId cs"
  using assms by (simp add: keepsSessionKeys_def capsInvariant_iff)

text \<open>
  The allocation of the id \<^verbatim>\<open>nextSessionCapId\<close> keeps the invariant as long as that id is
  below \<open>2^53\<close>, where adding one gives the next integer.
\<close>

lemma allocates_invariant:
  assumes "allocatesSessionKey (nextSessionCapId cs) cs cs'" and "capsInvariant cs"
    and "SESSION_CAPABILITY_START \<le> nextSessionCapId cs"
    and "nextSessionCapId cs < 2 ^ 53"
  shows "capsInvariant cs' \<and> nextSessionCapId cs' = nextSessionCapId cs + 1"
proof -
  define capId where "capId = nextSessionCapId cs"
  from assms(3,4) have inc: "js_inc capId = capId + 1"
    by (simp add: capId_def js_inc_exact SESSION_CAPABILITY_START_def)
  from assms(3) have new: "sessionKeyOk (capId + 1) (String_num capId)"
    by (simp add: sessionKeyOk_String_num capId_def)
  have old: "sessionKeyOk (capId + 1) k" if "k \<in> fst ` set (sessionCaps cs)" for k
  proof -
    from assms(2) that have "sessionKeyOk capId k"
      unfolding capsInvariant_iff capId_def by (rule bspec)
    then show ?thesis
      by (simp add: sessionKeyOk_def)
  qed
  from assms(1) inc have n: "nextSessionCapId cs' = capId + 1"
    and k: "fst ` set (sessionCaps cs') = insert (String_num capId) (fst ` set (sessionCaps cs))"
    by (simp_all add: allocatesSessionKey_def capId_def)
  from new old have "capsInvariant cs'"
    unfolding capsInvariant_iff n k by blast
  with n show ?thesis
    by (simp add: capId_def)
qed

lemma withServer_state: "fst (snd (withServer server r)) = fst (snd r)"
  by (cases r) (simp add: withServer_def)

definition keysStep :: "int \<Rightarrow> ChatState \<Rightarrow> (PayloadResult \<times> ChatState \<times> bool) option \<Rightarrow> bool" where
  "keysStep capId cs result = (case result of
      None \<Rightarrow> False
    | Some r \<Rightarrow> keepsSessionKeys cs (fst (snd r)) \<or> allocatesSessionKey capId cs (fst (snd r)))"

lemma authCall_keys:
  assumes "probeSessionCapId (sessionCaps cs) (nextSessionCapId cs) = Some capId"
  shows "keysStep capId cs (authCall as cs)"
  using assms
  by (simp add: keysStep_def authCall_def Let_def keepsSessionKeys_def allocatesSessionKey_def
      obj_set_String_num keys_obj_put split: list.split jsval.split)

lemma redeemNickTokenCall_keys:
  assumes "probeSessionCapId (sessionCaps cs) (nextSessionCapId cs) = Some capId"
  shows "keysStep capId cs (redeemNickTokenCall now as cs)"
  using assms
  by (simp add: keysStep_def redeemNickTokenCall_def Let_def keepsSessionKeys_def
      allocatesSessionKey_def obj_set_String_num keys_obj_put
      split: list.split jsval.split option.split)

lemma chatCapabilityCall_keys:
  assumes "probeSessionCapId (sessionCaps cs) (nextSessionCapId cs) = Some capId"
  shows "keysStep capId cs (chatCapabilityCall now m as cs)"
  using authCall_keys [OF assms, of as] redeemNickTokenCall_keys [OF assms, of now as]
  by (simp add: chatCapabilityCall_def keysStep_def keepsSessionKeys_refl)

lemma sendMessageCall_keys:
  "keepsSessionKeys cs (fst (snd (sendMessageCall receive now server sessionInfo as cs)))"
  by (simp add: sendMessageCall_def Let_def keepsSessionKeys_def split: list.split jsval.split)

lemma receiveMessagesCall_keys: "keepsSessionKeys cs (fst (snd (receiveMessagesCall as cs)))"
  by (simp add: receiveMessagesCall_def keepsSessionKeys_def)

lemma checkNickCall_keys: "keepsSessionKeys cs (fst (snd (checkNickCall as cs)))"
  by (simp add: checkNickCall_def keepsSessionKeys_def split: list.split jsval.split)

lemma storeNickTokenCall_keys:
  "keepsSessionKeys cs (fst (snd (storeNickTokenCall now sessionInfo as cs)))"
  by (simp add: storeNickTokenCall_def Let_def keepsSessionKeys_def split: list.split jsval.split)

lemma whoamiCall_keys: "keepsSessionKeys cs (fst (snd (whoamiCall sessionInfo cs)))"
  by (simp add: whoamiCall_def keepsSessionKeys_def)

lemma present_key: "map_of kvs k = Some v \<Longrightarrow> insert k (fst ` set kvs) = fst ` set kvs"
  by (metis insert_absorb map_of_eq_None_iff option.distinct(1))

lemma registerNickCall_keys:
  "map_of (sessionCaps cs) (String_num capId) = Some sessionInfo \<Longrightarrow>
   keepsSessionKeys cs (fst (snd (registerNickCall capId sessionInfo as cs)))"
  by (simp add: registerNickCall_def Let_def keepsSessionKeys_def obj_set_String_num keys_obj_put
      present_key split: list.split jsval.split)

lemma identifyNickCall_keys:
  "map_of (sessionCaps cs) (String_num capId) = Some sessionInfo \<Longrightarrow>
   keepsSessionKeys cs (fst (snd (identifyNickCall capId sessionInfo as cs)))"
  by (simp add: identifyNickCall_def Let_def keepsSessionKeys_def obj_set_String_num keys_obj_put
      present_key split: list.split jsval.split)

lemma sessionCall_keys:
  "map_of (sessionCaps cs) (String_num capId) = Some sessionInfo \<Longrightarrow>
   keepsSessionKeys cs (fst (snd (sessionCall receive now server capId sessionInfo m as cs)))"
  by (simp add: sessionCall_def withServer_state sendMessageCall_keys receiveMessagesCall_keys
      registerNickCall_keys identifyNickCall_keys checkNickCall_keys storeNickTokenCall_keys
      whoamiCall_keys keepsSessionKeys_refl)

lemma dispatchChatCall_keys:
  assumes "probeSessionCapId (sessionCaps cs) (nextSessionCapId cs) = Some capId"
  shows "\<exists>r. dispatchChatCall receive now server call cs = Some r
     \<and> (keepsSessionKeys cs (fst (snd r)) \<or> allocatesSessionKey capId cs (fst (snd r)))"
proof (cases "capabilityId call = CHAT_CAPABILITY_ID")
  case True
  from chatCapabilityCall_keys [OF assms, of now "methodName call" "args call"]
  obtain r where "chatCapabilityCall now (methodName call) (args call) cs = Some r"
    and "keepsSessionKeys cs (fst (snd r)) \<or> allocatesSessionKey capId cs (fst (snd r))"
    by (auto simp: keysStep_def split: option.splits)
  with True show ?thesis
    by (simp add: dispatchChatCall_def withServer_state)
next
  case False
  show ?thesis
  proof (cases "map_of (sessionCaps cs) (String_num (capabilityId call))")
    case None
    with False show ?thesis
      by (simp add: dispatchChatCall_def keepsSessionKeys_refl)
  next
    case (Some sessionInfo)
    with False sessionCall_keys [OF Some] show ?thesis
      by (simp add: dispatchChatCall_def)
  qed
qed

text \<open>
  One batch: from a storage whose loaded state satisfies the invariant, with
  \<^verbatim>\<open>nextSessionCapId\<close> below \<open>2^53\<close>, the handler returns, and the state loaded from the
  storage it leaves satisfies the invariant, with \<^verbatim>\<open>nextSessionCapId\<close> at most one more.
\<close>

lemma chat_step_invariant:
  assumes "capsInvariant (loadChatState now state)"
    and "nextSessionCapId (loadChatState now state) < 2 ^ 53"
  shows "\<exists>response server' state'.
      tryHandleChatBatch parse receive now payload (server, state) = Some (response, server', state')
    \<and> capsInvariant (loadChatState now' state')
    \<and> nextSessionCapId (loadChatState now' state') \<le> nextSessionCapId (loadChatState now state) + 1"
proof (cases "decodeChatBatch parse payload")
  case None
  with assms(1) load_caps_clock [of now' state now] show ?thesis
    by (simp add: tryHandleChatBatch_not_recognized capsInvariant_clock [of now' state now])
next
  case (Some call)
  define cs where "cs = loadChatState now state"
  have ge: "SESSION_CAPABILITY_START \<le> nextSessionCapId cs"
    by (simp add: cs_def load_next_ge)
  from assms(1) ge have "map_of (sessionCaps cs) (String_num (nextSessionCapId cs)) = None"
    unfolding cs_def by (rule invariant_next_free)
  then have "probeSessionCapId (sessionCaps cs) (nextSessionCapId cs) = Some (nextSessionCapId cs)"
    by (rule probe_free)
  from dispatchChatCall_keys [OF this, of receive now server call]
  obtain r where r: "dispatchChatCall receive now server call cs = Some r"
    and keys: "keepsSessionKeys cs (fst (snd r))
       \<or> allocatesSessionKey (nextSessionCapId cs) cs (fst (snd r))"
    by blast
  obtain res cs' mutated server' where parts: "r = (res, cs', mutated, server')"
    by (cases r)
  from keys have "capsInvariant cs' \<and> nextSessionCapId cs' \<le> nextSessionCapId cs + 1
      \<and> SESSION_CAPABILITY_START \<le> nextSessionCapId cs'"
  proof
    assume "keepsSessionKeys cs (fst (snd r))"
    with keeps_invariant [of cs cs'] assms(1) ge show ?thesis
      by (simp add: parts cs_def)
  next
    assume "allocatesSessionKey (nextSessionCapId cs) cs (fst (snd r))"
    with allocates_invariant [of cs cs'] assms ge show ?thesis
      by (simp add: parts cs_def)
  qed
  then have inv': "capsInvariant cs'" and le': "nextSessionCapId cs' \<le> nextSessionCapId cs + 1"
    and ge': "SESSION_CAPABILITY_START \<le> nextSessionCapId cs'"
    by simp_all
  note step = tryHandleChatBatch_dispatched [OF Some r [unfolded parts cs_def]]
  show ?thesis
  proof (cases mutated)
    case True
    with step capsInvariant_reload [OF inv' ge', of now'] le' ge' show ?thesis
      by (simp add: loadChatState_def persistChatState_def reload_nextSessionCapId cs_def)
  next
    case False
    have same: "loadChatState now' (state\<lparr> callCount := a, lastRequest := b, lastResponse := c \<rparr>)
        = loadChatState now' state" for a b c
      by (simp add: loadChatState_def)
    from False step assms(1) load_caps_clock [of now' state now] show ?thesis
      by (simp add: same capsInvariant_clock [of now' state now])
  qed
qed

lemma runBatches_invariant:
  assumes "capsInvariant (loadChatState now (snd world))"
    and "nextSessionCapId (loadChatState now (snd world)) + int (length batches) \<le> 2 ^ 53"
  shows "\<exists>world'. runBatches parse receive batches world = Some world'
    \<and> capsInvariant (loadChatState now' (snd world'))
    \<and> nextSessionCapId (loadChatState now' (snd world'))
        \<le> nextSessionCapId (loadChatState now (snd world)) + int (length batches)"
  using assms
proof (induction batches arbitrary: world now)
  case Nil
  with load_caps_clock [of now' "snd world" now] show ?case
    by (simp add: capsInvariant_clock [of now' _ now])
next
  case (Cons b batches)
  obtain t payload where b: "b = (t, payload)" by (cases b)
  obtain server state where w: "world = (server, state)" by (cases world)
  from Cons.prems(1) have inv: "capsInvariant (loadChatState t state)"
    by (simp add: w capsInvariant_clock [of t state now])
  have next_t: "nextSessionCapId (loadChatState t state) = nextSessionCapId (loadChatState now state)"
    using load_caps_clock [of t state now] by simp
  with Cons.prems(2) have lt: "nextSessionCapId (loadChatState t state) < 2 ^ 53"
    by (simp add: w)
  from chat_step_invariant [OF inv lt, of parse receive payload server t]
  obtain response server' state' where
    step: "tryHandleChatBatch parse receive t payload (server, state) = Some (response, server', state')"
    and inv': "capsInvariant (loadChatState t state')"
    and le': "nextSessionCapId (loadChatState t state') \<le> nextSessionCapId (loadChatState t state) + 1"
    by blast
  from le' next_t Cons.prems(2)
  have bound': "nextSessionCapId (loadChatState t (snd (server', state'))) + int (length batches) \<le> 2 ^ 53"
    by (simp add: w)
  from inv' have inv'': "capsInvariant (loadChatState t (snd (server', state')))"
    by simp
  from Cons.IH [OF inv'' bound']
  obtain world' where "runBatches parse receive batches (server', state') = Some world'"
    and "capsInvariant (loadChatState now' (snd world'))"
    and "nextSessionCapId (loadChatState now' (snd world'))
        \<le> nextSessionCapId (loadChatState t (snd (server', state'))) + int (length batches)"
    by blast
  with step le' next_t show ?case
    by (simp add: b w)
qed

text \<open>
  Claim C8, as amended. Normalisation guarantees that \<^verbatim>\<open>nextSessionCapId\<close> is at least
  \<^verbatim>\<open>SESSION_CAPABILITY_START\<close>. The empty storage satisfies the invariant. From any
  storage whose loaded state satisfies the invariant, every sequence of \<open>n\<close> batches for
  which \<^verbatim>\<open>nextSessionCapId\<close> plus \<open>n\<close> does not exceed \<open>2^53\<close> is handled to its end, and
  leads to a storage whose loaded state satisfies the invariant: every key of
  \<^verbatim>\<open>sessionCaps\<close> is the numeral of an integer from 10000 upwards, and
  \<^verbatim>\<open>nextSessionCapId\<close> is strictly greater than every key.
\<close>

theorem session_ids_invariant:
  "SESSION_CAPABILITY_START \<le> nextSessionCapId (loadChatState now state)
   \<and> capsInvariant (loadChatState now emptyStorage)
   \<and> (capsInvariant (loadChatState now (snd world))
        \<and> nextSessionCapId (loadChatState now (snd world)) + int (length batches) \<le> 2 ^ 53
      \<longrightarrow> (\<exists>world'. runBatches parse receive batches world = Some world'
             \<and> capsInvariant (loadChatState now' (snd world'))
             \<and> nextSessionCapId (loadChatState now' (snd world')) \<le> 2 ^ 53))"
proof -
  have "capsInvariant (loadChatState now emptyStorage)"
    by (simp add: load_empty capsInvariant_def DEFAULT_CHAT_STATE_def)
  moreover have "\<exists>world'. runBatches parse receive batches world = Some world'
             \<and> capsInvariant (loadChatState now' (snd world'))
             \<and> nextSessionCapId (loadChatState now' (snd world')) \<le> 2 ^ 53"
    if "capsInvariant (loadChatState now (snd world))"
      and "nextSessionCapId (loadChatState now (snd world)) + int (length batches) \<le> 2 ^ 53"
    using runBatches_invariant [OF that, of parse receive now'] that(2)
    by force
  ultimately show ?thesis
    using load_next_ge [of now state] by blast
qed

theorem session_ids_invariant_witness:
  \<open>capsInvariant (loadChatState 0 (snd (None :: Server option, emptyStorage)))
   \<and> nextSessionCapId (loadChatState 0 (snd (None :: Server option, emptyStorage)))
       + int (length [(1 :: int, batch ''["push",["call",2,["auth"],["zed","secret"]]]'' ''["pull",1]'')])
       \<le> 2 ^ 53
   \<and> (\<exists>world'. runBatches sampleParse alwaysReceives
         [(1, batch ''["push",["call",2,["auth"],["zed","secret"]]]'' ''["pull",1]'')]
         (None, emptyStorage) = Some world'
       \<and> capsInvariant (loadChatState 9 (snd world'))
       \<and> nextSessionCapId (loadChatState 9 (snd world')) \<le> 2 ^ 53)\<close>
proof -
  have b: \<open>nextSessionCapId (loadChatState 0 (snd (None :: Server option, emptyStorage)))
       + int (length [(1 :: int, batch ''["push",["call",2,["auth"],["zed","secret"]]]'' ''["pull",1]'')])
       \<le> 2 ^ 53\<close>
    by (simp add: load_empty DEFAULT_CHAT_STATE_def SESSION_CAPABILITY_START_def)
  from session_ids_invariant [of 0 emptyStorage "(None, emptyStorage)"
      \<open>[(1, batch ''["push",["call",2,["auth"],["zed","secret"]]]'' ''["pull",1]'')]\<close>
      sampleParse alwaysReceives 9] b
  show ?thesis
    by simp
qed

text \<open>
  The claim C8 as it was stated includes the states produced by normalising arbitrary
  persisted input. A persisted document with the session keys 7 and 10005 and
  \<^verbatim>\<open>nextSessionCapId\<close> 10000 is normalised to a state with those two keys and
  \<^verbatim>\<open>nextSessionCapId\<close> 10000: one key is below 10000, and \<^verbatim>\<open>nextSessionCapId\<close> is not
  greater than the other.
\<close>

theorem normalize_keeps_stale_keys:
  "sessionCaps (normalizeChatState 0 stalePersisted)
     = [(''7'', \<lparr> username = ''ann'', displayName = None \<rparr>),
        (''10005'', \<lparr> username = ''ben'', displayName = None \<rparr>)]
   \<and> nextSessionCapId (normalizeChatState 0 stalePersisted) = 10000
   \<and> \<not> capsInvariant (normalizeChatState 0 stalePersisted)"
  by code_simp

text \<open>
  The bound on \<^verbatim>\<open>nextSessionCapId\<close> is needed. The state loaded from \<open>lastIdStorage\<close> has
  no session and \<^verbatim>\<open>nextSessionCapId = 2^53\<close>, and satisfies the invariant; one \<^verbatim>\<open>auth\<close>
  leads to \<open>saturatedState\<close>, whose key \<open>2^53\<close> is not below its \<^verbatim>\<open>nextSessionCapId\<close>.
\<close>

lemma invariant_lost_at_limit:
  "capsInvariant (loadChatState 4 lastIdStorage) \<and> \<not> capsInvariant saturatedState"
  by code_simp


section \<open>The nickname tokens\<close>

text \<open>
  The tokens of one user in a table, in the order of the table.
\<close>

definition userTokens :: "string \<Rightarrow> (string \<times> NickTokenInfo) list \<Rightarrow> (string \<times> NickTokenInfo) list" where
  "userTokens user tokens = filter (\<lambda>(tokenKey, info). tokenUsername info = user) tokens"

lemma mset_js_order: "mset (js_order kvs) = mset kvs"
  by (simp add: js_order_def)

lemma distinct_js_order: "distinct (js_order kvs) = distinct kvs"
  by (metis mset_js_order mset_eq_imp_distinct_iff)

lemma mset_tokensForUser: "mset (tokensForUser user tokens) = mset (userTokens user tokens)"
  by (simp add: tokensForUser_def userTokens_def mset_js_order)

lemma set_tokensForUser: "set (tokensForUser user tokens) = set (userTokens user tokens)"
  by (metis mset_tokensForUser mset_eq_setD)

lemma length_tokensForUser: "length (tokensForUser user tokens) = length (userTokens user tokens)"
  by (metis mset_tokensForUser mset_eq_length)

lemma distinct_keys_distinct: "distinct (map fst kvs) \<Longrightarrow> distinct kvs"
  by (simp add: distinct_map)

lemma distinct_tokensForUser:
  "distinct (map fst tokens) \<Longrightarrow> distinct (tokensForUser user tokens)"
  using mset_eq_imp_distinct_iff [OF mset_tokensForUser [of user tokens]]
  by (simp add: userTokens_def distinct_keys_distinct)

lemma sorted_tokensForUser:
  "sorted (map (\<lambda>(tokenKey, info). - issuedAt info) (tokensForUser user tokens))"
  by (simp add: tokensForUser_def)

lemma fold_obj_delete:
  "fold (\<lambda>(tokenKey, info) acc. obj_delete tokenKey acc) gone tokens
     = filter (\<lambda>(k, v). k \<notin> fst ` set gone) tokens"
proof (induction gone arbitrary: tokens)
  case Nil
  then show ?case by simp
next
  case (Cons g gone)
  obtain k v where g: "g = (k, v)" by (cases g)
  have "fold (\<lambda>(tokenKey, info) acc. obj_delete tokenKey acc) (g # gone) tokens
      = filter (\<lambda>(k', v). k' \<notin> fst ` set gone) (obj_delete k tokens)"
    by (simp add: g Cons.IH)
  also have "\<dots> = filter (\<lambda>(k', v). k' \<notin> fst ` set (g # gone)) tokens"
    by (auto simp: g obj_delete_def intro!: filter_cong)
  finally show ?case .
qed

lemma key_determines_entry:
  assumes "distinct (map fst kvs)" and "(k, v) \<in> set kvs" and "(k, v') \<in> set kvs"
  shows "v = v'"
  using assms by (meson eq_key_imp_eq_value)

lemma pruneTokens_filter:
  assumes "distinct (map fst tokens)"
  shows "pruneTokens user tokens
     = filter (\<lambda>e. e \<notin> set (drop 5 (tokensForUser user tokens))) tokens"
proof -
  let ?gone = "drop 5 (tokensForUser user tokens)"
  have sub: "set ?gone \<subseteq> set tokens"
    using set_drop_subset [of 5 "tokensForUser user tokens"]
    by (auto simp: set_tokensForUser userTokens_def)
  have "(fst e \<notin> fst ` set ?gone) = (e \<notin> set ?gone)" if "e \<in> set tokens" for e
  proof
    assume "fst e \<notin> fst ` set ?gone"
    then show "e \<notin> set ?gone" by blast
  next
    assume out: "e \<notin> set ?gone"
    show "fst e \<notin> fst ` set ?gone"
    proof
      assume "fst e \<in> fst ` set ?gone"
      then obtain g where g: "g \<in> set ?gone" "fst g = fst e" by auto
      with sub have "g \<in> set tokens" by blast
      with assms that g(2) have "snd g = snd e"
        using key_determines_entry [of tokens "fst e" "snd g" "snd e"]
        by (metis prod.collapse)
      with g(2) have "g = e" by (simp add: prod_eq_iff)
      with g(1) out show False by simp
    qed
  qed
  then have "filter (\<lambda>(k, v). k \<notin> fst ` set ?gone) tokens
      = filter (\<lambda>e. e \<notin> set ?gone) tokens"
    by (intro filter_cong) (auto simp: case_prod_beta)
  then show ?thesis
    by (simp add: pruneTokens_def fold_obj_delete)
qed

lemma userTokens_pruneTokens:
  assumes "distinct (map fst tokens)"
  shows "userTokens user (pruneTokens user tokens)
     = filter (\<lambda>e. e \<notin> set (drop 5 (tokensForUser user tokens))) (userTokens user tokens)"
  by (simp add: pruneTokens_filter [OF assms] userTokens_def conj_commute)

lemma set_userTokens_pruneTokens:
  assumes "distinct (map fst tokens)"
  shows "set (userTokens user (pruneTokens user tokens)) = set (take 5 (tokensForUser user tokens))"
proof -
  let ?s = "tokensForUser user tokens"
  have d: "distinct (take 5 ?s @ drop 5 ?s)"
    using distinct_tokensForUser [OF assms, of user] by simp
  then have disj: "set (take 5 ?s) \<inter> set (drop 5 ?s) = {}"
    by (simp only: distinct_append)
  have un: "set (take 5 ?s) \<union> set (drop 5 ?s) = set (userTokens user tokens)"
    by (metis append_take_drop_id set_append set_tokensForUser)
  have "set (userTokens user (pruneTokens user tokens)) = set (userTokens user tokens) - set (drop 5 ?s)"
    by (auto simp: userTokens_pruneTokens [OF assms])
  with disj un show ?thesis by blast
qed

lemma distinct_userTokens: "distinct (map fst tokens) \<Longrightarrow> distinct (userTokens user tokens)"
  by (simp add: userTokens_def distinct_keys_distinct)

lemma distinct_keys_filter: "distinct (map fst kvs) \<Longrightarrow> distinct (map fst (filter P kvs))"
  by (simp add: distinct_map_filter)

lemma distinct_keys_pruneTokens:
  "distinct (map fst tokens) \<Longrightarrow> distinct (map fst (pruneTokens user tokens))"
  by (simp add: pruneTokens_filter distinct_keys_filter)

lemma length_userTokens_pruneTokens:
  assumes "distinct (map fst tokens)"
  shows "length (userTokens user (pruneTokens user tokens)) = min 5 (length (userTokens user tokens))"
proof -
  let ?s = "tokensForUser user tokens"
  have "length (userTokens user (pruneTokens user tokens))
      = card (set (userTokens user (pruneTokens user tokens)))"
    using distinct_userTokens [OF distinct_keys_pruneTokens [OF assms], of user user]
    by (simp add: distinct_card)
  also have "\<dots> = card (set (take 5 ?s))"
    by (simp add: set_userTokens_pruneTokens [OF assms])
  also have "\<dots> = length (take 5 ?s)"
    using distinct_tokensForUser [OF assms, of user]
    by (intro distinct_card) simp
  also have "\<dots> = min 5 (length (userTokens user tokens))"
    by (simp add: length_tokensForUser min.commute)
  finally show ?thesis .
qed

lemma other_users_pruneTokens:
  assumes "distinct (map fst tokens)"
  shows "filter (\<lambda>(k, info). tokenUsername info \<noteq> user) (pruneTokens user tokens)
     = filter (\<lambda>(k, info). tokenUsername info \<noteq> user) tokens"
proof -
  have "set (drop 5 (tokensForUser user tokens)) \<subseteq> set (userTokens user tokens)"
    using set_drop_subset [of 5 "tokensForUser user tokens"]
    by (simp add: set_tokensForUser)
  then have "e \<notin> set (drop 5 (tokensForUser user tokens))"
    if "tokenUsername (snd e) \<noteq> user" for e
    using that by (auto simp: userTokens_def)
  then show ?thesis
    by (auto simp: pruneTokens_filter [OF assms] case_prod_beta intro!: filter_cong)
qed

lemma kept_newer_than_pruned:
  assumes "distinct (map fst tokens)"
    and "kept \<in> set (userTokens user (pruneTokens user tokens))"
    and "gone \<in> set (userTokens user tokens)"
    and "gone \<notin> set (pruneTokens user tokens)"
  shows "issuedAt (snd gone) \<le> issuedAt (snd kept)"
proof -
  let ?s = "tokensForUser user tokens"
  let ?f = "\<lambda>(tokenKey, info). - issuedAt info"
  from assms(2) have k: "kept \<in> set (take 5 ?s)"
    by (simp add: set_userTokens_pruneTokens [OF assms(1)])
  from assms(3,4) have "gone \<notin> set (userTokens user (pruneTokens user tokens))"
    by (simp add: userTokens_def)
  with assms(3) have g: "gone \<in> set (drop 5 ?s)"
    by (auto simp: userTokens_pruneTokens [OF assms(1)])
  have "sorted (map ?f (take 5 ?s) @ map ?f (drop 5 ?s))"
    using sorted_tokensForUser [of user tokens]
    by (metis append_take_drop_id map_append)
  then have "\<forall>x \<in> set (map ?f (take 5 ?s)). \<forall>y \<in> set (map ?f (drop 5 ?s)). x \<le> y"
    by (simp only: sorted_append) blast
  with k g have "?f kept \<le> ?f gone"
    by (metis (no_types, lifting) image_eqI list.set_map)
  then show ?thesis
    by (simp add: case_prod_beta)
qed

subsection \<open>Tables read back from the stored document\<close>

text \<open>
  A token as \<^verbatim>\<open>normalizeChatState\<close> returns it has a non-empty username and a
  nickname that is not the empty string. A table has plain keys when no key occurs twice
  and \<^verbatim>\<open>__proto__\<close> is not a key.
\<close>

definition wellFormedToken :: "NickTokenInfo \<Rightarrow> bool" where
  "wellFormedToken info = (tokenUsername info \<noteq> [] \<and> nickname info \<noteq> Some [])"

definition plainKeys :: "(string \<times> 'a) list \<Rightarrow> bool" where
  "plainKeys kvs = (distinct (map fst kvs) \<and> ''__proto__'' \<notin> fst ` set kvs)"

lemma distinct_obj_put: "distinct (map fst kvs) \<Longrightarrow> distinct (map fst (obj_put k v kvs))"
proof (induction kvs)
  case Nil
  then show ?case by simp
next
  case (Cons e kvs)
  obtain a b where e: "e = (a, b)" by (cases e)
  from Cons show ?case
    by (simp add: e keys_obj_put)
qed

lemma set_obj_put: "set (obj_put k v kvs) \<subseteq> insert (k, v) (set kvs)"
proof (induction kvs)
  case Nil
  then show ?case by simp
next
  case (Cons e kvs)
  obtain a b where e: "e = (a, b)" by (cases e)
  from Cons show ?case
    by (cases "k = a") (auto simp: e)
qed

lemma plainKeys_obj_set: "plainKeys kvs \<Longrightarrow> plainKeys (obj_set k v kvs)"
  by (simp add: plainKeys_def obj_set_def distinct_obj_put keys_obj_put)

lemma set_obj_set: "set (obj_set k v kvs) \<subseteq> insert (k, v) (set kvs)"
  using set_obj_put [of k v kvs] by (auto simp: obj_set_def)

lemma collectEntries_Cons:
  "collectEntries accept ((key, v) # entries) target
     = collectEntries accept entries
         (case accept v of Some x \<Rightarrow> obj_set key x target | None \<Rightarrow> target)"
  by (simp add: collectEntries_def)

lemma collectEntries_Nil: "collectEntries accept [] target = target"
  by (simp add: collectEntries_def)

lemma plainKeys_collectEntries:
  "plainKeys target \<Longrightarrow> plainKeys (collectEntries accept entries target)"
proof (induction entries arbitrary: target)
  case Nil
  then show ?case by (simp add: collectEntries_Nil)
next
  case (Cons e entries)
  obtain key v where e: "e = (key, v)" by (cases e)
  from Cons.prems have "plainKeys (case accept v of Some x \<Rightarrow> obj_set key x target
      | None \<Rightarrow> target)"
    by (simp add: plainKeys_obj_set split: option.split)
  then have "plainKeys (collectEntries accept entries
      (case accept v of Some x \<Rightarrow> obj_set key x target | None \<Rightarrow> target))"
    by (rule Cons.IH)
  then show ?case
    by (simp only: e collectEntries_Cons)
qed

lemma values_collectEntries:
  "(k, x) \<in> set (collectEntries accept entries target) \<Longrightarrow>
   (\<exists>v. accept v = Some x) \<or> (k, x) \<in> set target"
proof (induction entries arbitrary: target)
  case Nil
  then show ?case by (simp add: collectEntries_Nil)
next
  case (Cons e entries)
  obtain key v where e: "e = (key, v)" by (cases e)
  define target' where "target' = (case accept v of Some y \<Rightarrow> obj_set key y target | None \<Rightarrow> target)"
  from Cons.prems have "(k, x) \<in> set (collectEntries accept entries target')"
    by (simp only: e collectEntries_Cons target'_def)
  then have step: "(\<exists>v. accept v = Some x) \<or> (k, x) \<in> set target'"
    by (rule Cons.IH)
  show ?case
  proof (cases "accept v")
    case None
    with step show ?thesis by (simp add: target'_def)
  next
    case (Some y)
    with step have "(\<exists>v. accept v = Some x) \<or> (k, x) \<in> insert (key, y) (set target)"
      using set_obj_set [of key y target] by (auto simp: target'_def)
    with Some show ?thesis by auto
  qed
qed

lemma map_of_collectEntries:
  assumes "distinct (map fst entries)" and "''__proto__'' \<notin> fst ` set entries"
  shows "map_of (collectEntries accept entries target) k
     = (case map_of entries k of
          Some v \<Rightarrow> (case accept v of Some x \<Rightarrow> Some x | None \<Rightarrow> map_of target k)
        | None \<Rightarrow> map_of target k)"
  using assms
proof (induction entries arbitrary: target)
  case Nil
  then show ?case by (simp add: collectEntries_Nil)
next
  case (Cons e entries)
  obtain key v where e: "e = (key, v)" by (cases e)
  define target' where "target' = (case accept v of Some y \<Rightarrow> obj_set key y target | None \<Rightarrow> target)"
  from Cons.prems have d: "distinct (map fst entries)" and fresh: "map_of entries key = None"
    and np: "''__proto__'' \<notin> fst ` set entries" and key: "key \<noteq> ''__proto__''"
    by (auto simp: e map_of_eq_None_iff)
  have step: "map_of (collectEntries accept (e # entries) target) k
     = (case map_of entries k of
          Some v \<Rightarrow> (case accept v of Some x \<Rightarrow> Some x | None \<Rightarrow> map_of target' k)
        | None \<Rightarrow> map_of target' k)"
    by (simp only: e collectEntries_Cons target'_def [symmetric] Cons.IH [OF d np])
  show ?case
  proof (cases "k = key")
    case True
    with fresh step key show ?thesis
      by (simp add: e target'_def map_of_obj_set split: option.split)
  next
    case False
    with key have "map_of target' k = map_of target k"
      by (simp add: target'_def map_of_obj_set split: option.split)
    with False step show ?thesis
      by (simp add: e split: option.split)
  qed
qed

lemma distinct_keys_js_order: "distinct (map fst (js_order kvs)) = distinct (map fst kvs)"
proof -
  have "mset (map fst (js_order kvs)) = mset (map fst kvs)"
    by (simp add: mset_js_order)
  then show ?thesis
    by (rule mset_eq_imp_distinct_iff)
qed

lemma map_of_js_order:
  assumes "distinct (map fst kvs)"
  shows "map_of (js_order kvs) = map_of kvs"
proof -
  from assms have "distinct (map fst (js_order kvs))"
    by (simp only: distinct_keys_js_order)
  then have "(map_of (js_order kvs) = map_of kvs) = (set (js_order kvs) = set kvs)"
    using assms by (rule map_of_inject_set)
  then show ?thesis
    by (simp only: set_js_order)
qed

lemma keys_map_values: "map fst (map (\<lambda>(k, v). (k, f v)) kvs) = map fst kvs"
  by (induction kvs) auto

lemma normalizeSessionInfo_sessionInfoJson: "normalizeSessionInfo (sessionInfoJson info) = Some info"
  by (cases info; cases "displayName info")
     (simp_all add: normalizeSessionInfo_def sessionInfoJson_def js_prop_def)

lemma normalizeNickToken_nickTokenJson:
  "wellFormedToken info \<Longrightarrow> normalizeNickToken now (nickTokenJson info) = Some info"
  by (cases info; cases "nickname info"; cases "lastUsed info")
     (simp_all add: normalizeNickToken_def nickTokenJson_def js_prop_def wellFormedToken_def)

lemma nickname_not_empty:
  "(case x of JStr n \<Rightarrow> (if n \<noteq> [] then Some n else None) | _ \<Rightarrow> None) \<noteq> Some []"
  by (cases x) simp_all

lemma normalizeNickToken_wellFormed:
  assumes "normalizeNickToken now entry = Some info"
  shows "wellFormedToken info"
proof (cases "js_prop entry ''username''")
  case (JStr u)
  with assms have "u \<noteq> []"
    and "info = \<lparr> tokenUsername = u,
           nickname = (case js_prop entry ''nickname'' of
                         JStr n \<Rightarrow> (if n \<noteq> [] then Some n else None) | _ \<Rightarrow> None),
           issuedAt = (case js_prop entry ''issuedAt'' of JNum t \<Rightarrow> t | _ \<Rightarrow> now),
           lastUsed = (case js_prop entry ''lastUsed'' of JNum t \<Rightarrow> Some t | _ \<Rightarrow> None) \<rparr>"
    by (simp_all add: normalizeNickToken_def split: if_splits)
  then show ?thesis
    by (simp add: wellFormedToken_def nickname_not_empty)
qed (use assms in \<open>simp_all add: normalizeNickToken_def split: if_splits\<close>)

lemma reload_table:
  assumes "plainKeys table"
    and "\<And>k v. (k, v) \<in> set table \<Longrightarrow> accept (enc v) = Some v"
  shows "map_of (collectEntries accept
           (Object_entries (JObj (map (\<lambda>(k, v). (k, enc v)) (js_order table)))) []) = map_of table"
proof
  fix k
  let ?doc = "map (\<lambda>(k, v). (k, enc v)) (js_order table)"
  from assms(1) have dt: "distinct (map fst table)" and np: "''__proto__'' \<notin> fst ` set table"
    by (simp_all add: plainKeys_def)
  have d: "distinct (map fst ?doc)"
    by (simp only: keys_map_values distinct_keys_js_order dt)
  then have d': "distinct (map fst (js_order ?doc))"
    by (simp add: distinct_keys_js_order)
  have "fst ` set (js_order ?doc) = fst ` set table"
    by (force simp: set_js_order image_iff)
  with np have np': "''__proto__'' \<notin> fst ` set (js_order ?doc)"
    by simp
  have m: "map_of (js_order ?doc) k = map_option enc (map_of table k)"
    by (simp add: map_of_js_order [OF d] map_of_map map_of_js_order [OF dt])
  show "map_of (collectEntries accept (Object_entries (JObj ?doc)) []) k = map_of table k"
  proof (cases "map_of table k")
    case None
    with m show ?thesis
      by (simp add: Object_entries_def map_of_collectEntries [OF d' np'])
  next
    case (Some v)
    then have "(k, v) \<in> set table" by (rule map_of_SomeD)
    then have "accept (enc v) = Some v" by (rule assms(2))
    with m Some show ?thesis
      by (simp add: Object_entries_def map_of_collectEntries [OF d' np'])
  qed
qed

lemma js_prop_chatStateJson_nickTokens:
  "js_prop (chatStateJson cs) ''nickTokens''
     = JObj (map (\<lambda>(k, v). (k, nickTokenJson v)) (js_order (nickTokens cs)))"
  by (simp add: chatStateJson_def js_prop_def)

lemma nickTokens_normalizeChatState:
  "nickTokens (normalizeChatState now parsed)
     = (if isObject parsed then normalizeNickTokens now (js_prop parsed ''nickTokens'') else [])"
  by (simp add: normalizeChatState_def Let_def cloneDefaultChatState_def DEFAULT_CHAT_STATE_def)

lemma sessionCaps_normalizeChatState:
  "sessionCaps (normalizeChatState now parsed)
     = (if isObject parsed then normalizeSessionCaps (js_prop parsed ''sessionCaps'') else [])"
  by (simp add: normalizeChatState_def Let_def cloneDefaultChatState_def DEFAULT_CHAT_STATE_def)

lemma reload_sessionCaps_map:
  assumes "plainKeys (sessionCaps cs)"
  shows "map_of (sessionCaps (normalizeChatState now (chatStateJson cs))) = map_of (sessionCaps cs)"
  using reload_table [OF assms, of normalizeSessionInfo sessionInfoJson]
  by (simp add: sessionCaps_normalizeChatState isObject_chatStateJson
      js_prop_chatStateJson_sessionCaps normalizeSessionCaps_def
      normalizeSessionInfo_sessionInfoJson)

lemma reload_nickTokens_map:
  assumes "plainKeys (nickTokens cs)"
    and "\<And>k v. (k, v) \<in> set (nickTokens cs) \<Longrightarrow> wellFormedToken v"
  shows "map_of (nickTokens (normalizeChatState now (chatStateJson cs))) = map_of (nickTokens cs)"
  using reload_table [OF assms(1), of "normalizeNickToken now" nickTokenJson] assms(2)
  by (simp add: nickTokens_normalizeChatState isObject_chatStateJson
      js_prop_chatStateJson_nickTokens normalizeNickTokens_def
      normalizeNickToken_nickTokenJson)

lemma plainKeys_Nil: "plainKeys []"
  by (simp add: plainKeys_def)

lemma plainKeys_normalizeNickTokens: "plainKeys (normalizeNickTokens now src)"
  by (simp add: normalizeNickTokens_def plainKeys_collectEntries plainKeys_Nil)

lemma plainKeys_normalizeSessionCaps: "plainKeys (normalizeSessionCaps src)"
  by (simp add: normalizeSessionCaps_def plainKeys_collectEntries plainKeys_Nil)

lemma wellFormed_normalizeNickTokens:
  assumes "(k, v) \<in> set (normalizeNickTokens now src)"
  shows "wellFormedToken v"
proof (cases "isObject src")
  case True
  with assms have "(k, v) \<in> set (collectEntries (normalizeNickToken now) (Object_entries src) [])"
    by (simp add: normalizeNickTokens_def)
  then have "(\<exists>entry. normalizeNickToken now entry = Some v) \<or> (k, v) \<in> set []"
    by (rule values_collectEntries)
  then obtain entry where "normalizeNickToken now entry = Some v"
    by auto
  then show ?thesis
    by (rule normalizeNickToken_wellFormed)
next
  case False
  with assms show ?thesis
    by (simp add: normalizeNickTokens_def)
qed

lemma nickTokens_loadChatState:
  "nickTokens (loadChatState now state)
     = (case chatState state of None \<Rightarrow> [] | Some raw \<Rightarrow> nickTokens (normalizeChatState now raw))"
  by (simp add: loadChatState_def cloneDefaultChatState_def DEFAULT_CHAT_STATE_def
      split: option.split)

lemma sessionCaps_loadChatState:
  "sessionCaps (loadChatState now state)
     = (case chatState state of None \<Rightarrow> [] | Some raw \<Rightarrow> sessionCaps (normalizeChatState now raw))"
  by (simp add: loadChatState_def cloneDefaultChatState_def DEFAULT_CHAT_STATE_def
      split: option.split)

lemma load_plainKeys_nickTokens: "plainKeys (nickTokens (loadChatState now state))"
  by (simp add: nickTokens_loadChatState nickTokens_normalizeChatState
      plainKeys_normalizeNickTokens plainKeys_Nil split: option.split)

lemma load_plainKeys_sessionCaps: "plainKeys (sessionCaps (loadChatState now state))"
  by (simp add: sessionCaps_loadChatState sessionCaps_normalizeChatState
      plainKeys_normalizeSessionCaps plainKeys_Nil split: option.split)

lemma load_wellFormed_nickTokens:
  assumes "(k, v) \<in> set (nickTokens (loadChatState now state))"
  shows "wellFormedToken v"
proof (cases "chatState state")
  case None
  with assms show ?thesis
    by (simp add: nickTokens_loadChatState)
next
  case (Some raw)
  with assms have "(k, v) \<in> set (normalizeNickTokens now (js_prop raw ''nickTokens''))"
    by (simp add: nickTokens_loadChatState nickTokens_normalizeChatState split: if_splits)
  then show ?thesis
    by (rule wellFormed_normalizeNickTokens)
qed

subsection \<open>Accepted calls of storeNickToken\<close>

text \<open>
  \<open>storeCall\<close> reads a request as the handler does: it is \<open>Some (sessionInfo, token)\<close> when
  the two lines decode to a call of \<^verbatim>\<open>storeNickToken\<close> on a session of \<open>sessionCaps\<close>,
  that is not the chat capability, with one string argument; \<open>token\<close> is the trimmed
  argument. \<open>acceptedStore\<close> adds that the session is one of the given user and that the
  token is neither empty nor \<^verbatim>\<open>__proto__\<close>. \<open>newToken\<close> is the entry such a call stores.
  A state is clean when its two tables have plain keys and every token is as
  \<^verbatim>\<open>normalizeChatState\<close> returns it.
\<close>

definition newToken :: "int \<Rightarrow> SessionInfo \<Rightarrow> NickTokenInfo" where
  "newToken now sessionInfo =
     \<lparr> tokenUsername = username sessionInfo,
       nickname = (case displayName sessionInfo of
                     Some d \<Rightarrow> (if d \<noteq> [] then Some d else None)
                   | None \<Rightarrow> None),
       issuedAt = now, lastUsed = Some now \<rparr>"

definition storeCall :: "(string \<Rightarrow> jsval option) \<Rightarrow> ChatState \<Rightarrow> string \<Rightarrow> (SessionInfo \<times> string) option" where
  "storeCall parse cs payload =
     (case decodeChatBatch parse payload of
        None \<Rightarrow> None
      | Some call \<Rightarrow>
          if capabilityId call \<noteq> CHAT_CAPABILITY_ID \<and> methodName call = ''storeNickToken''
          then (case map_of (sessionCaps cs) (String_num (capabilityId call)) of
                  None \<Rightarrow> None
                | Some sessionInfo \<Rightarrow>
                    (case args call of
                       [JStr raw] \<Rightarrow> Some (sessionInfo, trim raw)
                     | _ \<Rightarrow> None))
          else None)"

definition acceptedStore :: "(string \<Rightarrow> jsval option) \<Rightarrow> string \<Rightarrow> ChatState \<Rightarrow> int \<times> string
    \<Rightarrow> string \<Rightarrow> bool" where
  "acceptedStore parse user cs request token =
     (case storeCall parse cs (snd request) of
        None \<Rightarrow> False
      | Some (sessionInfo, t) \<Rightarrow>
          username sessionInfo = user \<and> t = token \<and> token \<noteq> [] \<and> token \<noteq> ''__proto__'')"

definition cleanState :: "ChatState \<Rightarrow> bool" where
  "cleanState cs = (plainKeys (sessionCaps cs) \<and> plainKeys (nickTokens cs)
     \<and> list_all (\<lambda>(k, info). wellFormedToken info) (nickTokens cs))"

lemma storeCall_Some:
  assumes "storeCall parse cs payload = Some (sessionInfo, token)"
  shows "\<exists>call raw. decodeChatBatch parse payload = Some call
     \<and> capabilityId call \<noteq> CHAT_CAPABILITY_ID \<and> methodName call = ''storeNickToken''
     \<and> map_of (sessionCaps cs) (String_num (capabilityId call)) = Some sessionInfo
     \<and> args call = [JStr raw] \<and> trim raw = token"
proof -
  from assms obtain call where d: "decodeChatBatch parse payload = Some call"
    by (cases "decodeChatBatch parse payload") (simp_all add: storeCall_def)
  with assms have c: "capabilityId call \<noteq> CHAT_CAPABILITY_ID" "methodName call = ''storeNickToken''"
    by (simp_all add: storeCall_def split: if_splits)
  with assms d obtain info where s: "map_of (sessionCaps cs) (String_num (capabilityId call)) = Some info"
    by (cases "map_of (sessionCaps cs) (String_num (capabilityId call))") (simp_all add: storeCall_def)
  with assms d c have "\<exists>raw. args call = [JStr raw] \<and> trim raw = token" and "info = sessionInfo"
    by (auto simp: storeCall_def split: list.splits jsval.splits)
  with d c s show ?thesis
    by auto
qed

lemma storeCall_cong:
  assumes "map_of (sessionCaps cs) = map_of (sessionCaps cs')"
  shows "storeCall parse cs = storeCall parse cs'"
proof
  fix payload
  from assms have "map_of (sessionCaps cs) k = map_of (sessionCaps cs') k" for k
    by simp
  then show "storeCall parse cs payload = storeCall parse cs' payload"
    by (simp add: storeCall_def cong: option.case_cong if_cong)
qed

lemma acceptedStore_cong:
  "map_of (sessionCaps cs) = map_of (sessionCaps cs')
   \<Longrightarrow> acceptedStore parse user cs = acceptedStore parse user cs'"
  by (intro ext) (simp add: acceptedStore_def storeCall_cong [of cs cs'])

text \<open>One accepted call, on the handler.\<close>

lemma store_step:
  assumes "storeCall parse (loadChatState now state) payload = Some (sessionInfo, token)"
    and "token \<noteq> []"
  shows "\<exists>resp state'.
      tryHandleChatBatch parse receive now payload (server, state) = Some (Some resp, server, state')
    \<and> chatState state' = Some (chatStateJson ((loadChatState now state)\<lparr>
          nickTokens := pruneTokens (username sessionInfo)
            (obj_set token (newToken now sessionInfo) (nickTokens (loadChatState now state))) \<rparr>))"
proof -
  define cs where "cs = loadChatState now state"
  from storeCall_Some [OF assms(1)] obtain call raw where
    d: "decodeChatBatch parse payload = Some call"
    and c: "capabilityId call \<noteq> CHAT_CAPABILITY_ID"
    and m: "methodName call = ''storeNickToken''"
    and s: "map_of (sessionCaps cs) (String_num (capabilityId call)) = Some sessionInfo"
    and a: "args call = [JStr raw]" and t: "trim raw = token"
    unfolding cs_def by blast
  have "dispatchChatCall receive now server call cs
      = Some (Success (statusOk ''Nickname token stored''),
              cs\<lparr> nickTokens := pruneTokens (username sessionInfo)
                    (obj_set token (newToken now sessionInfo) (nickTokens cs)) \<rparr>,
              True, server)"
    using c m s a t assms(2)
    by (simp add: dispatchChatCall_def sessionCall_def storeNickTokenCall_def withServer_def
        Let_def newToken_def)
  from tryHandleChatBatch_dispatched [OF d this [unfolded cs_def]] show ?thesis
    by (simp add: persistChatState_def)
qed

text \<open>The keys under which a user has tokens.\<close>

definition userKeys :: "string \<Rightarrow> (string \<times> NickTokenInfo) list \<Rightarrow> string set" where
  "userKeys user tokens = fst ` set (userTokens user tokens)"

lemma userKeys_map_of:
  assumes "distinct (map fst tokens)"
  shows "userKeys user tokens = {k. \<exists>info. map_of tokens k = Some info \<and> tokenUsername info = user}"
  using assms by (force simp: userKeys_def userTokens_def image_iff)

lemma finite_userKeys: "finite (userKeys user tokens)"
  by (simp add: userKeys_def)

lemma userKeys_set:
  "set tokens = set tokens' \<Longrightarrow> userKeys user tokens = userKeys user tokens'"
  by (simp add: userKeys_def userTokens_def)

lemma length_userTokens_card:
  assumes "distinct (map fst tokens)"
  shows "length (userTokens user tokens) = card (userKeys user tokens)"
proof -
  from assms have "distinct (map fst (userTokens user tokens))"
    by (simp add: userTokens_def distinct_keys_filter)
  then have "card (set (map fst (userTokens user tokens))) = length (map fst (userTokens user tokens))"
    by (rule distinct_card)
  then show ?thesis
    by (simp add: userKeys_def)
qed

lemma userKeys_obj_set:
  assumes "plainKeys tokens" and "token \<noteq> ''__proto__''" and "tokenUsername info = user"
  shows "userKeys user (obj_set token info tokens) = insert token (userKeys user tokens)"
proof -
  from assms(1) have d: "distinct (map fst tokens)"
    by (simp add: plainKeys_def)
  from assms(1) have d': "distinct (map fst (obj_set token info tokens))"
    using plainKeys_obj_set [of tokens token info] by (simp add: plainKeys_def)
  show ?thesis
    unfolding userKeys_map_of [OF d] userKeys_map_of [OF d']
    using assms(2,3) by (auto simp: map_of_obj_set)
qed

lemma plainKeys_filter: "plainKeys kvs \<Longrightarrow> plainKeys (filter P kvs)"
  by (auto simp: plainKeys_def distinct_keys_filter)

lemma plainKeys_pruneTokens: "plainKeys tokens \<Longrightarrow> plainKeys (pruneTokens user tokens)"
  by (simp add: plainKeys_def pruneTokens_filter distinct_keys_filter) auto

lemma set_pruneTokens_subset:
  "distinct (map fst tokens) \<Longrightarrow> set (pruneTokens user tokens) \<subseteq> set tokens"
  by (auto simp: pruneTokens_filter)

lemma userKeys_pruneTokens:
  assumes "distinct (map fst tokens)"
  shows "userKeys user (pruneTokens user tokens) \<subseteq> userKeys user tokens
       \<and> card (userKeys user (pruneTokens user tokens)) = min 5 (card (userKeys user tokens))"
proof -
  have "set (userTokens user (pruneTokens user tokens)) \<subseteq> set (userTokens user tokens)"
    using set_pruneTokens_subset [OF assms, of user] by (auto simp: userTokens_def)
  then have sub: "userKeys user (pruneTokens user tokens) \<subseteq> userKeys user tokens"
    by (auto simp: userKeys_def)
  have "card (userKeys user (pruneTokens user tokens))
      = length (userTokens user (pruneTokens user tokens))"
    using distinct_keys_pruneTokens [OF assms, of user]
    by (simp add: length_userTokens_card)
  also have "\<dots> = min 5 (length (userTokens user tokens))"
    by (rule length_userTokens_pruneTokens [OF assms])
  also have "\<dots> = min 5 (card (userKeys user tokens))"
    by (simp add: length_userTokens_card [OF assms])
  finally show ?thesis
    using sub by simp
qed

lemma wellFormed_newToken: "username sessionInfo \<noteq> [] \<Longrightarrow> wellFormedToken (newToken now sessionInfo)"
  by (simp add: wellFormedToken_def newToken_def split: option.split)

text \<open>A clean state is read back as it was written, up to the order of the tables.\<close>

lemma reload_clean:
  assumes "cleanState cs" and "chatState state = Some (chatStateJson cs)"
  shows "map_of (sessionCaps (loadChatState now state)) = map_of (sessionCaps cs)"
    and "set (nickTokens (loadChatState now state)) = set (nickTokens cs)"
proof -
  from assms(2) have l: "loadChatState now state = normalizeChatState now (chatStateJson cs)"
    by (simp add: loadChatState_def)
  from assms(1) show "map_of (sessionCaps (loadChatState now state)) = map_of (sessionCaps cs)"
    by (simp add: l cleanState_def reload_sessionCaps_map)
  from assms(1) have wf: "wellFormedToken v" if "(k, v) \<in> set (nickTokens cs)" for k v
    using that by (auto simp: cleanState_def list_all_iff)
  from assms(1) have p: "plainKeys (nickTokens cs)"
    by (simp add: cleanState_def)
  have m: "map_of (nickTokens (loadChatState now state)) = map_of (nickTokens cs)"
    unfolding l by (rule reload_nickTokens_map [OF p wf])
  have "distinct (map fst (nickTokens (loadChatState now state)))"
    using load_plainKeys_nickTokens [of now state] by (simp add: plainKeys_def)
  moreover from p have "distinct (map fst (nickTokens cs))"
    by (simp add: plainKeys_def)
  ultimately show "set (nickTokens (loadChatState now state)) = set (nickTokens cs)"
    using m by (simp add: map_of_inject_set)
qed

text \<open>The state an accepted call writes is clean.\<close>

lemma clean_after_store:
  assumes "username sessionInfo \<noteq> []"
  shows "cleanState ((loadChatState now state)\<lparr>
          nickTokens := pruneTokens (username sessionInfo)
            (obj_set token (newToken now sessionInfo) (nickTokens (loadChatState now state))) \<rparr>)"
proof -
  define T where "T = nickTokens (loadChatState now state)"
  define T1 where "T1 = obj_set token (newToken now sessionInfo) T"
  have p: "plainKeys T"
    by (simp add: T_def load_plainKeys_nickTokens)
  then have p1: "plainKeys T1"
    by (simp add: T1_def plainKeys_obj_set)
  then have p': "plainKeys (pruneTokens (username sessionInfo) T1)"
    by (rule plainKeys_pruneTokens)
  have "wellFormedToken v" if "(k, v) \<in> set (pruneTokens (username sessionInfo) T1)" for k v
  proof -
    from p1 have "distinct (map fst T1)" by (simp add: plainKeys_def)
    from set_pruneTokens_subset [OF this] that have "(k, v) \<in> set T1" by blast
    with set_obj_set [of token "newToken now sessionInfo" T]
    have "v = newToken now sessionInfo \<or> (k, v) \<in> set T"
      by (auto simp: T1_def)
    then show ?thesis
    proof
      assume "v = newToken now sessionInfo"
      with assms show ?thesis by (simp add: wellFormed_newToken)
    next
      assume "(k, v) \<in> set T"
      then show ?thesis
        unfolding T_def by (rule load_wellFormed_nickTokens)
    qed
  qed
  then have "list_all (\<lambda>(k, info). wellFormedToken info) (pruneTokens (username sessionInfo) T1)"
    by (auto simp: list_all_iff)
  with p' show ?thesis
    by (simp add: cleanState_def T1_def T_def load_plainKeys_sessionCaps)
qed

text \<open>One accepted call, in terms of the keys of the user.\<close>

lemma store_step_keys:
  assumes "acceptedStore parse user (loadChatState now state) (now, payload) token"
    and "user \<noteq> []"
  shows "\<exists>resp state' cs'.
      tryHandleChatBatch parse receive now payload (server, state) = Some (Some resp, server, state')
    \<and> chatState state' = Some (chatStateJson cs') \<and> cleanState cs'
    \<and> sessionCaps cs' = sessionCaps (loadChatState now state)
    \<and> userKeys user (nickTokens cs')
        \<subseteq> insert token (userKeys user (nickTokens (loadChatState now state)))
    \<and> card (userKeys user (nickTokens cs'))
        = min 5 (card (insert token (userKeys user (nickTokens (loadChatState now state)))))"
proof -
  define cs where "cs = loadChatState now state"
  from assms(1) obtain sessionInfo where
    call: "storeCall parse cs payload = Some (sessionInfo, token)"
    and u: "username sessionInfo = user" and ne: "token \<noteq> []" and np: "token \<noteq> ''__proto__''"
    by (auto simp: acceptedStore_def cs_def split: option.splits)
  define T1 where "T1 = obj_set token (newToken now sessionInfo) (nickTokens cs)"
  define cs' where "cs' = cs\<lparr> nickTokens := pruneTokens user T1 \<rparr>"
  from store_step [OF call [unfolded cs_def] ne, of receive server]
  obtain resp state' where
    step: "tryHandleChatBatch parse receive now payload (server, state) = Some (Some resp, server, state')"
    and doc: "chatState state' = Some (chatStateJson cs')"
    by (auto simp: cs'_def T1_def cs_def u)
  from assms(2) u have clean: "cleanState cs'"
    using clean_after_store [where sessionInfo = sessionInfo and now = now and state = state
        and token = token]
    by (simp add: cs'_def T1_def cs_def)
  have p: "plainKeys (nickTokens cs)"
    by (simp add: cs_def load_plainKeys_nickTokens)
  then have d1: "distinct (map fst T1)"
    using plainKeys_obj_set [of "nickTokens cs" token "newToken now sessionInfo"]
    by (simp add: T1_def plainKeys_def)
  have k1: "userKeys user T1 = insert token (userKeys user (nickTokens cs))"
    unfolding T1_def by (rule userKeys_obj_set [OF p np]) (simp add: newToken_def u)
  from userKeys_pruneTokens [OF d1, of user] k1
  have sub: "userKeys user (nickTokens cs') \<subseteq> insert token (userKeys user (nickTokens cs))"
    and num: "card (userKeys user (nickTokens cs'))
        = min 5 (card (insert token (userKeys user (nickTokens cs))))"
    by (simp_all add: cs'_def)
  have sess: "sessionCaps cs' = sessionCaps cs"
    by (simp add: cs'_def)
  from step doc clean sess sub num show ?thesis
    unfolding cs_def [symmetric] by blast
qed

subsection \<open>Sequences of accepted calls\<close>

text \<open>The users of the stored tokens do not depend on the clock at which they are read.\<close>

lemma obj_put_map_values:
  "map (\<lambda>(k, x). (k, g x)) (obj_put key v kvs) = obj_put key (g v) (map (\<lambda>(k, x). (k, g x)) kvs)"
  by (induction kvs) auto

lemma obj_set_map_values:
  "map (\<lambda>(k, x). (k, g x)) (obj_set key v kvs) = obj_set key (g v) (map (\<lambda>(k, x). (k, g x)) kvs)"
  by (simp add: obj_set_def obj_put_map_values)

lemma collectEntries_map_values:
  assumes "\<And>v. accept' v = map_option g (accept v)"
  shows "map (\<lambda>(k, x). (k, g x)) (collectEntries accept entries target)
     = collectEntries accept' entries (map (\<lambda>(k, x). (k, g x)) target)"
proof (induction entries arbitrary: target)
  case Nil
  then show ?case by (simp add: collectEntries_Nil)
next
  case (Cons e entries)
  obtain key v where e: "e = (key, v)" by (cases e)
  show ?case
    by (cases "accept v") (simp_all add: e collectEntries_Cons Cons.IH assms obj_set_map_values)
qed

lemma tokenUsername_clock:
  "map_option tokenUsername (normalizeNickToken now v) = map_option tokenUsername (normalizeNickToken now' v)"
  by (simp add: normalizeNickToken_def split: jsval.split)

lemma token_users_clock:
  "map (\<lambda>(k, info). (k, tokenUsername info)) (nickTokens (loadChatState now state))
     = map (\<lambda>(k, info). (k, tokenUsername info)) (nickTokens (loadChatState now' state))"
proof -
  have "map (\<lambda>(k, info). (k, tokenUsername info)) (normalizeNickTokens now src)
      = map (\<lambda>(k, info). (k, tokenUsername info)) (normalizeNickTokens now' src)" for src
  proof (cases "isObject src")
    case True
    have "map (\<lambda>(k, info). (k, tokenUsername info))
            (collectEntries (normalizeNickToken n) (Object_entries src) [])
        = collectEntries (\<lambda>v. map_option tokenUsername (normalizeNickToken now v))
            (Object_entries src) []" for n
      using collectEntries_map_values
        [of "\<lambda>v. map_option tokenUsername (normalizeNickToken now v)" tokenUsername
            "normalizeNickToken n" "Object_entries src" "[]"]
      by (simp add: tokenUsername_clock [of n _ now])
    with True show ?thesis
      by (simp add: normalizeNickTokens_def)
  next
    case False
    then show ?thesis
      by (simp add: normalizeNickTokens_def)
  qed
  then show ?thesis
    by (simp add: nickTokens_loadChatState nickTokens_normalizeChatState split: option.split)
qed

lemma userKeys_users:
  "userKeys user tokens = {k. (k, user) \<in> set (map (\<lambda>(k, info). (k, tokenUsername info)) tokens)}"
  by (force simp: userKeys_def userTokens_def image_iff)

lemma userKeys_clock:
  "userKeys user (nickTokens (loadChatState now state))
     = userKeys user (nickTokens (loadChatState now' state))"
  unfolding userKeys_users by (simp only: token_users_clock [of now state now'])

text \<open>The count over a sequence of accepted calls.\<close>

lemma count_step:
  assumes "K \<subseteq> A" and "finite A" and "card K = min 5 (card A)"
  shows "min 5 (card (insert t K)) = min 5 (card (insert t A))"
proof (cases "card A \<le> 5")
  case True
  with assms(3) have "card K = card A" by simp
  with assms(1,2) have "K = A"
    by (simp add: card_subset_eq)
  then show ?thesis by simp
next
  case False
  with assms(3) have five: "card K = 5" by simp
  from assms(1,2) have fin: "finite K"
    by (rule finite_subset)
  from fin have "card K \<le> card (insert t K)"
    by (simp add: card_insert_le)
  with five have a: "5 \<le> card (insert t K)" by simp
  from assms(2) have "card A \<le> card (insert t A)"
    by (simp add: card_insert_le)
  with False have b: "5 \<le> card (insert t A)" by simp
  from a b show ?thesis by simp
qed

lemma run_accepted_stores:
  assumes "chatState state = Some (chatStateJson cs)" and "cleanState cs"
    and "list_all2 (acceptedStore parse user cs) batches tokens" and "user \<noteq> []"
    and "userKeys user (nickTokens cs) \<subseteq> A" and "finite A"
    and "card (userKeys user (nickTokens cs)) = min 5 (card A)"
  shows "\<exists>state' cs'. runBatches parse receive batches (server, state) = Some (server, state')
    \<and> chatState state' = Some (chatStateJson cs') \<and> cleanState cs'
    \<and> card (userKeys user (nickTokens cs')) = min 5 (card (A \<union> set tokens))"
  using assms
proof (induction batches arbitrary: state cs tokens A)
  case Nil
  then show ?case by auto
next
  case (Cons b batches)
  obtain now payload where b: "b = (now, payload)" by (cases b)
  from Cons.prems(3) obtain token rest where tokens: "tokens = token # rest"
    and first: "acceptedStore parse user cs (now, payload) token"
    and others: "list_all2 (acceptedStore parse user cs) batches rest"
    by (auto simp: list_all2_Cons1 b)
  define loaded where "loaded = loadChatState now state"
  note reload = reload_clean [OF Cons.prems(2,1), of now, folded loaded_def]
  from reload(1) have same: "acceptedStore parse user loaded = acceptedStore parse user cs"
    by (rule acceptedStore_cong)
  from reload(2) have keys: "userKeys user (nickTokens loaded) = userKeys user (nickTokens cs)"
    by (rule userKeys_set)
  from first same have "acceptedStore parse user (loadChatState now state) (now, payload) token"
    by (simp add: loaded_def)
  from store_step_keys [OF this Cons.prems(4), of receive server]
  obtain resp state1 cs1 where
    step: "tryHandleChatBatch parse receive now payload (server, state) = Some (Some resp, server, state1)"
    and doc1: "chatState state1 = Some (chatStateJson cs1)" and clean1: "cleanState cs1"
    and sess1: "sessionCaps cs1 = sessionCaps loaded"
    and sub1: "userKeys user (nickTokens cs1) \<subseteq> insert token (userKeys user (nickTokens loaded))"
    and num1: "card (userKeys user (nickTokens cs1))
        = min 5 (card (insert token (userKeys user (nickTokens loaded))))"
    unfolding loaded_def by blast
  from sess1 reload(1) have "map_of (sessionCaps cs) = map_of (sessionCaps cs1)"
    by simp
  then have "acceptedStore parse user cs = acceptedStore parse user cs1"
    by (rule acceptedStore_cong)
  with others have others1: "list_all2 (acceptedStore parse user cs1) batches rest"
    by simp
  from sub1 keys Cons.prems(5) have sub1': "userKeys user (nickTokens cs1) \<subseteq> insert token A"
    by auto
  from Cons.prems(6) have fin1: "finite (insert token A)"
    by simp
  from num1 keys count_step [OF Cons.prems(5,6,7), of token]
  have num1': "card (userKeys user (nickTokens cs1)) = min 5 (card (insert token A))"
    by simp
  from Cons.IH [OF doc1 clean1 others1 Cons.prems(4) sub1' fin1 num1']
  obtain state' cs' where "runBatches parse receive batches (server, state1) = Some (server, state')"
    and "chatState state' = Some (chatStateJson cs')" and "cleanState cs'"
    and "card (userKeys user (nickTokens cs')) = min 5 (card (insert token A \<union> set rest))"
    by blast
  with step show ?case
    by (auto simp: b tokens)
qed

lemma accepted_stores_count:
  assumes "list_all2 (acceptedStore parse user (loadChatState now state)) batches tokens"
    and "batches \<noteq> []" and "user \<noteq> []"
  shows "\<exists>state'. runBatches parse receive batches (server, state) = Some (server, state')
    \<and> length (userTokens user (nickTokens (loadChatState now' state')))
        = min 5 (card (userKeys user (nickTokens (loadChatState now state)) \<union> set tokens))"
proof -
  from assms(1,2) obtain t payload rest token others where
    batches: "batches = (t, payload) # rest" and tokens: "tokens = token # others"
    and first: "acceptedStore parse user (loadChatState now state) (t, payload) token"
    and more: "list_all2 (acceptedStore parse user (loadChatState now state)) rest others"
    by (cases batches) (auto simp: list_all2_Cons1)
  define K0 where "K0 = userKeys user (nickTokens (loadChatState now state))"
  have caps: "sessionCaps (loadChatState now state) = sessionCaps (loadChatState t state)"
    using load_caps_clock [of now state t] by simp
  then have same: "acceptedStore parse user (loadChatState now state)
      = acceptedStore parse user (loadChatState t state)"
    by (intro acceptedStore_cong) simp
  with first have "acceptedStore parse user (loadChatState t state) (t, payload) token"
    by simp
  from store_step_keys [OF this assms(3), of receive server]
  obtain resp state1 cs1 where
    step: "tryHandleChatBatch parse receive t payload (server, state) = Some (Some resp, server, state1)"
    and doc1: "chatState state1 = Some (chatStateJson cs1)" and clean1: "cleanState cs1"
    and sess1: "sessionCaps cs1 = sessionCaps (loadChatState t state)"
    and sub1: "userKeys user (nickTokens cs1)
        \<subseteq> insert token (userKeys user (nickTokens (loadChatState t state)))"
    and num1: "card (userKeys user (nickTokens cs1))
        = min 5 (card (insert token (userKeys user (nickTokens (loadChatState t state)))))"
    by blast
  have k0: "userKeys user (nickTokens (loadChatState t state)) = K0"
    unfolding K0_def by (rule userKeys_clock)
  from sess1 caps have "acceptedStore parse user (loadChatState now state)
      = acceptedStore parse user cs1"
    by (intro acceptedStore_cong) simp
  with more have more1: "list_all2 (acceptedStore parse user cs1) rest others"
    by simp
  have fin: "finite (insert token K0)"
    by (simp add: K0_def finite_userKeys)
  from run_accepted_stores [OF doc1 clean1 more1 assms(3) sub1 [unfolded k0] fin num1 [unfolded k0],
      of receive server]
  obtain state' cs' where run: "runBatches parse receive rest (server, state1) = Some (server, state')"
    and doc: "chatState state' = Some (chatStateJson cs')" and clean: "cleanState cs'"
    and num: "card (userKeys user (nickTokens cs')) = min 5 (card (insert token K0 \<union> set others))"
    by blast
  from reload_clean(2) [OF clean doc, of now']
  have "userKeys user (nickTokens (loadChatState now' state')) = userKeys user (nickTokens cs')"
    by (rule userKeys_set)
  moreover have "distinct (map fst (nickTokens (loadChatState now' state')))"
    using load_plainKeys_nickTokens [of now' state'] by (simp add: plainKeys_def)
  ultimately have "length (userTokens user (nickTokens (loadChatState now' state')))
      = min 5 (card (insert token K0 \<union> set others))"
    using num by (simp add: length_userTokens_card)
  with step run show ?thesis
    by (simp add: batches tokens K0_def)
qed

text \<open>One accepted call: what is kept.\<close>

lemma accepted_store_keeps_newest:
  assumes "acceptedStore parse user (loadChatState now state) (now, payload) token"
    and "user \<noteq> []"
  shows "\<exists>resp state' sessionInfo.
      tryHandleChatBatch parse receive now payload (server, state) = Some (Some resp, server, state')
    \<and> storeCall parse (loadChatState now state) payload = Some (sessionInfo, token)
    \<and> (let stored = obj_set token (newToken now sessionInfo) (nickTokens (loadChatState now state));
            kept = nickTokens (loadChatState now' state')
        in set (userTokens user kept) \<subseteq> set (userTokens user stored)
         \<and> length (userTokens user kept) = min 5 (length (userTokens user stored))
         \<and> (\<forall>k \<in> set (userTokens user kept).
              \<forall>g \<in> set (userTokens user stored) - set (userTokens user kept).
                issuedAt (snd g) \<le> issuedAt (snd k))
         \<and> set (filter (\<lambda>(key, info). tokenUsername info \<noteq> user) kept)
             = set (filter (\<lambda>(key, info). tokenUsername info \<noteq> user) stored)
         \<and> (\<forall>other. other \<noteq> user \<longrightarrow>
               length (userTokens other kept)
                 \<le> length (userTokens other (nickTokens (loadChatState now state)))))"
proof -
  let ?cs = "loadChatState now state"
  from assms(1) obtain sessionInfo where
    call: "storeCall parse ?cs payload = Some (sessionInfo, token)"
    and u: "username sessionInfo = user" and ne: "token \<noteq> []"
    by (auto simp: acceptedStore_def split: option.splits)
  define stored where "stored = obj_set token (newToken now sessionInfo) (nickTokens ?cs)"
  from store_step [OF call ne, of receive server]
  obtain resp state' where
    step: "tryHandleChatBatch parse receive now payload (server, state) = Some (Some resp, server, state')"
    and doc: "chatState state' = Some (chatStateJson (?cs\<lparr> nickTokens := pruneTokens user stored \<rparr>))"
    unfolding u stored_def [symmetric] by blast
  from assms(2) u have clean: "cleanState (?cs\<lparr> nickTokens := pruneTokens user stored \<rparr>)"
    using clean_after_store [where sessionInfo = sessionInfo and now = now and state = state
        and token = token]
    unfolding u stored_def [symmetric] by simp
  define kept where "kept = nickTokens (loadChatState now' state')"
  from reload_clean(2) [OF clean doc, of now'] have same: "set kept = set (pruneTokens user stored)"
    by (simp add: kept_def)
  have dk: "distinct (map fst kept)"
    using load_plainKeys_nickTokens [of now' state'] by (simp add: plainKeys_def kept_def)
  have "plainKeys (nickTokens ?cs)"
    by (simp add: load_plainKeys_nickTokens)
  then have d: "distinct (map fst stored)"
    using plainKeys_obj_set [of "nickTokens ?cs" token "newToken now sessionInfo"]
    by (simp add: stored_def plainKeys_def)
  have users: "set (userTokens user kept) = set (userTokens user (pruneTokens user stored))"
    using same by (simp add: userTokens_def)
  have sub: "set (userTokens user kept) \<subseteq> set (userTokens user stored)"
    unfolding users using set_pruneTokens_subset [OF d, of user] by (auto simp: userTokens_def)
  have "length (userTokens user kept) = card (userKeys user kept)"
    by (rule length_userTokens_card [OF dk])
  also have "\<dots> = card (userKeys user (pruneTokens user stored))"
    using same by (simp only: userKeys_set [OF same])
  also have "\<dots> = length (userTokens user (pruneTokens user stored))"
    using distinct_keys_pruneTokens [OF d, of user] by (simp add: length_userTokens_card)
  also have "\<dots> = min 5 (length (userTokens user stored))"
    by (rule length_userTokens_pruneTokens [OF d])
  finally have len: "length (userTokens user kept) = min 5 (length (userTokens user stored))" .
  have newest: "issuedAt (snd g) \<le> issuedAt (snd k)"
    if k: "k \<in> set (userTokens user kept)"
      and g: "g \<in> set (userTokens user stored) - set (userTokens user kept)" for k g
  proof -
    from g have g1: "g \<in> set (userTokens user stored)"
      and g2: "g \<notin> set (userTokens user (pruneTokens user stored))"
      by (simp_all add: users)
    from g1 g2 have g3: "g \<notin> set (pruneTokens user stored)"
      by (auto simp: userTokens_def)
    from k have k1: "k \<in> set (userTokens user (pruneTokens user stored))"
      by (simp add: users)
    from d k1 g1 g3 show ?thesis
      by (rule kept_newer_than_pruned)
  qed
  then have new: "\<forall>k \<in> set (userTokens user kept).
      \<forall>g \<in> set (userTokens user stored) - set (userTokens user kept).
        issuedAt (snd g) \<le> issuedAt (snd k)"
    by blast
  have "set (filter (\<lambda>(key, info). tokenUsername info \<noteq> user) kept)
      = set (filter (\<lambda>(key, info). tokenUsername info \<noteq> user) (pruneTokens user stored))"
    using same by simp
  also have "\<dots> = set (filter (\<lambda>(key, info). tokenUsername info \<noteq> user) stored)"
    by (simp only: other_users_pruneTokens [OF d])
  finally have rest: "set (filter (\<lambda>(key, info). tokenUsername info \<noteq> user) kept)
      = set (filter (\<lambda>(key, info). tokenUsername info \<noteq> user) stored)" .
  have "length (userTokens other kept) \<le> length (userTokens other (nickTokens ?cs))"
    if other: "other \<noteq> user" for other
  proof -
    have "set (userTokens other kept) \<subseteq> set (userTokens other (nickTokens ?cs))"
    proof
      fix e
      assume "e \<in> set (userTokens other kept)"
      then have e: "e \<in> set kept" "tokenUsername (snd e) = other"
        by (auto simp: userTokens_def)
      with same have "e \<in> set (pruneTokens user stored)"
        by simp
      with set_pruneTokens_subset [OF d, of user] have "e \<in> set stored"
        by blast
      with set_obj_set [of token "newToken now sessionInfo" "nickTokens ?cs"]
      have "e = (token, newToken now sessionInfo) \<or> e \<in> set (nickTokens ?cs)"
        by (auto simp: stored_def)
      with e other u show "e \<in> set (userTokens other (nickTokens ?cs))"
        by (auto simp: userTokens_def newToken_def)
    qed
    then have "card (set (userTokens other kept)) \<le> card (set (userTokens other (nickTokens ?cs)))"
      by (intro card_mono) simp_all
    moreover have "distinct (userTokens other kept)"
      by (rule distinct_userTokens [OF dk])
    moreover have "distinct (userTokens other (nickTokens ?cs))"
      using load_plainKeys_nickTokens [of now state]
      by (intro distinct_userTokens) (simp add: plainKeys_def)
    ultimately show ?thesis
      by (simp add: distinct_card)
  qed
  then have others: "\<forall>other. other \<noteq> user \<longrightarrow>
      length (userTokens other kept) \<le> length (userTokens other (nickTokens ?cs))"
    by blast
  show ?thesis
    unfolding Let_def
    apply (rule exI [of _ resp], rule exI [of _ state'], rule exI [of _ sessionInfo])
    using step call sub len new rest others unfolding kept_def stored_def by (intro conjI)
qed

subsection \<open>Sample calls of storeNickToken\<close>

lemma accepted_a:
  "acceptedStore sampleParse ''guest-10000'' oneSessionState (now, storeTokenRequest ''a'') ''a''"
  by code_simp

lemma accepted_b:
  "acceptedStore sampleParse ''guest-10000'' oneSessionState (now, storeTokenRequest ''b'') ''b''"
  by code_simp

lemma accepted_c:
  "acceptedStore sampleParse ''guest-10000'' oneSessionState (now, storeTokenRequest ''c'') ''c''"
  by code_simp

lemma accepted_d:
  "acceptedStore sampleParse ''guest-10000'' oneSessionState (now, storeTokenRequest ''d'') ''d''"
  by code_simp

lemma accepted_e:
  "acceptedStore sampleParse ''guest-10000'' oneSessionState (now, storeTokenRequest ''e'') ''e''"
  by code_simp

lemma accepted_f:
  "acceptedStore sampleParse ''guest-10000'' oneSessionState (now, storeTokenRequest ''f'') ''f''"
  by code_simp

lemma accepted_tok_plain:
  "acceptedStore sampleParse ''guest-10000'' oneSessionState (now, storeTokenRequest ''tok'') ''tok''"
  by code_simp

lemma accepted_tok_lead:
  "acceptedStore sampleParse ''guest-10000'' oneSessionState (now, storeTokenRequest '' tok'') ''tok''"
  by code_simp

lemma accepted_tok_trail:
  "acceptedStore sampleParse ''guest-10000'' oneSessionState (now, storeTokenRequest ''tok '') ''tok''"
  by code_simp

lemma accepted_tok_both:
  "acceptedStore sampleParse ''guest-10000'' oneSessionState (now, storeTokenRequest '' tok '') ''tok''"
  by code_simp

lemma accepted_tok_lead2:
  "acceptedStore sampleParse ''guest-10000'' oneSessionState (now, storeTokenRequest ''  tok'') ''tok''"
  by code_simp

lemma accepted_tok_trail2:
  "acceptedStore sampleParse ''guest-10000'' oneSessionState (now, storeTokenRequest ''tok  '') ''tok''"
  by code_simp

lemma storeCall_a:
  "storeCall sampleParse oneSessionState (storeTokenRequest ''a'')
     = Some (\<lparr> username = ''guest-10000'', displayName = None \<rparr>, ''a'')"
  by code_simp

lemma userKeys_oneSession: "userKeys user (nickTokens oneSessionState) = {}"
  by (simp add: userKeys_def userTokens_def oneSessionState_def DEFAULT_CHAT_STATE_def)

text \<open>
  Six calls of \<^verbatim>\<open>storeNickToken\<close> on session 10000 with six distinct token strings that
  differ only in the blanks around \<^verbatim>\<open>tok\<close>: the code trims each of them to the key
  \<^verbatim>\<open>tok\<close>, so that every call overwrites the entry of the call before. One token of
  \<^verbatim>\<open>guest-10000\<close> is stored afterwards, not five.
\<close>

lemma six_distinct_strings_leave_one_token:
  "map_option (\<lambda>(server, state). length (userTokens ''guest-10000'' (nickTokens (loadChatState 7 state))))
     (runBatches sampleParse alwaysReceives
        [(1, storeTokenRequest ''tok''), (2, storeTokenRequest '' tok''),
         (3, storeTokenRequest ''tok ''), (4, storeTokenRequest '' tok ''),
         (5, storeTokenRequest ''  tok''), (6, storeTokenRequest ''tok  '')]
        (None, oneSessionStorage))
   = Some 1"
proof -
  have "list_all2 (acceptedStore sampleParse ''guest-10000'' (loadChatState 0 oneSessionStorage))
      [(1, storeTokenRequest ''tok''), (2, storeTokenRequest '' tok''),
       (3, storeTokenRequest ''tok ''), (4, storeTokenRequest '' tok ''),
       (5, storeTokenRequest ''  tok''), (6, storeTokenRequest ''tok  '')]
      [''tok'', ''tok'', ''tok'', ''tok'', ''tok'', ''tok'']"
    by (simp add: load_oneSession accepted_tok_plain accepted_tok_lead accepted_tok_trail
        accepted_tok_both accepted_tok_lead2 accepted_tok_trail2)
  from accepted_stores_count [OF this, of alwaysReceives None 7]
  show ?thesis
    by (auto simp: load_oneSession userKeys_oneSession)
qed

text \<open>
  Claim C4, as amended. A call is accepted when it is a \<^verbatim>\<open>storeNickToken\<close> call on a
  known session with one string argument that is not empty after trimming (and is not
  \<^verbatim>\<open>__proto__\<close>); its token is the trimmed string. For a user with a non-empty username:

  \<^item> after a non-empty sequence of accepted calls on sessions of that user, the handler has
    answered every call and the table read back holds \<open>min 5 n\<close> tokens of the user, \<open>n\<close>
    being the number of distinct keys among the user's tokens before the calls and the
    trimmed tokens of the calls; so six calls whose tokens are distinct after trimming leave
    exactly five tokens;

  \<^item> after one accepted call, the tokens of the user read back are among the user's tokens
    after the insertion, there are \<open>min 5\<close> of them, every token kept was issued no earlier
    than every token dropped, the tokens of the other users are those after the insertion,
    and no other user has more tokens than before.
\<close>

theorem storeNickToken_keeps_five_newest:
  "(list_all2 (acceptedStore parse user (loadChatState now state)) requests tokens
      \<and> requests \<noteq> [] \<and> user \<noteq> []
    \<longrightarrow> (\<exists>state'. runBatches parse receive requests (server, state) = Some (server, state')
          \<and> length (userTokens user (nickTokens (loadChatState now' state')))
              = min 5 (card (userKeys user (nickTokens (loadChatState now state)) \<union> set tokens))))
   \<and> (acceptedStore parse user (loadChatState now state) (now, payload) token \<and> user \<noteq> []
    \<longrightarrow> (\<exists>resp state' sessionInfo.
            tryHandleChatBatch parse receive now payload (server, state)
              = Some (Some resp, server, state')
          \<and> storeCall parse (loadChatState now state) payload = Some (sessionInfo, token)
          \<and> (let stored = obj_set token (newToken now sessionInfo) (nickTokens (loadChatState now state));
                  kept = nickTokens (loadChatState now' state')
              in set (userTokens user kept) \<subseteq> set (userTokens user stored)
               \<and> length (userTokens user kept) = min 5 (length (userTokens user stored))
               \<and> (\<forall>k \<in> set (userTokens user kept).
                    \<forall>g \<in> set (userTokens user stored) - set (userTokens user kept).
                      issuedAt (snd g) \<le> issuedAt (snd k))
               \<and> set (filter (\<lambda>(key, info). tokenUsername info \<noteq> user) kept)
                   = set (filter (\<lambda>(key, info). tokenUsername info \<noteq> user) stored)
               \<and> (\<forall>other. other \<noteq> user \<longrightarrow>
                     length (userTokens other kept)
                       \<le> length (userTokens other (nickTokens (loadChatState now state)))))))"
proof (intro conjI impI)
  assume "list_all2 (acceptedStore parse user (loadChatState now state)) requests tokens
      \<and> requests \<noteq> [] \<and> user \<noteq> []"
  then show "\<exists>state'. runBatches parse receive requests (server, state) = Some (server, state')
      \<and> length (userTokens user (nickTokens (loadChatState now' state')))
          = min 5 (card (userKeys user (nickTokens (loadChatState now state)) \<union> set tokens))"
    using accepted_stores_count [of parse user now state requests tokens receive server now']
    by blast
next
  assume "acceptedStore parse user (loadChatState now state) (now, payload) token \<and> user \<noteq> []"
  then have a: "acceptedStore parse user (loadChatState now state) (now, payload) token"
    and u: "user \<noteq> []"
    by simp_all
  from accepted_store_keeps_newest [OF a u, of receive server now']
  show "\<exists>resp state' sessionInfo.
      tryHandleChatBatch parse receive now payload (server, state) = Some (Some resp, server, state')
    \<and> storeCall parse (loadChatState now state) payload = Some (sessionInfo, token)
    \<and> (let stored = obj_set token (newToken now sessionInfo) (nickTokens (loadChatState now state));
            kept = nickTokens (loadChatState now' state')
        in set (userTokens user kept) \<subseteq> set (userTokens user stored)
         \<and> length (userTokens user kept) = min 5 (length (userTokens user stored))
         \<and> (\<forall>k \<in> set (userTokens user kept).
              \<forall>g \<in> set (userTokens user stored) - set (userTokens user kept).
                issuedAt (snd g) \<le> issuedAt (snd k))
         \<and> set (filter (\<lambda>(key, info). tokenUsername info \<noteq> user) kept)
             = set (filter (\<lambda>(key, info). tokenUsername info \<noteq> user) stored)
         \<and> (\<forall>other. other \<noteq> user \<longrightarrow>
               length (userTokens other kept)
                 \<le> length (userTokens other (nickTokens (loadChatState now state)))))" .
qed

theorem storeNickToken_keeps_five_newest_witness:
  "list_all2 (acceptedStore sampleParse ''guest-10000'' (loadChatState 1 oneSessionStorage))
      [(1, storeTokenRequest ''a''), (2, storeTokenRequest ''b''), (3, storeTokenRequest ''c''),
       (4, storeTokenRequest ''d''), (5, storeTokenRequest ''e''), (6, storeTokenRequest ''f'')]
      [''a'', ''b'', ''c'', ''d'', ''e'', ''f'']
   \<and> (\<exists>state'. runBatches sampleParse alwaysReceives
        [(1, storeTokenRequest ''a''), (2, storeTokenRequest ''b''), (3, storeTokenRequest ''c''),
         (4, storeTokenRequest ''d''), (5, storeTokenRequest ''e''), (6, storeTokenRequest ''f'')]
        (None, oneSessionStorage) = Some (None, state')
      \<and> length (userTokens ''guest-10000'' (nickTokens (loadChatState 7 state'))) = 5)
   \<and> acceptedStore sampleParse ''guest-10000'' (loadChatState 1 oneSessionStorage)
        (1, storeTokenRequest ''a'') ''a''
   \<and> (\<exists>resp state'. tryHandleChatBatch sampleParse alwaysReceives 1 (storeTokenRequest ''a'')
          (None, oneSessionStorage) = Some (Some resp, None, state')
      \<and> length (userTokens ''guest-10000'' (nickTokens (loadChatState 7 state'))) = 1)"
proof -
  have six: "list_all2 (acceptedStore sampleParse ''guest-10000'' (loadChatState 1 oneSessionStorage))
      [(1, storeTokenRequest ''a''), (2, storeTokenRequest ''b''), (3, storeTokenRequest ''c''),
       (4, storeTokenRequest ''d''), (5, storeTokenRequest ''e''), (6, storeTokenRequest ''f'')]
      [''a'', ''b'', ''c'', ''d'', ''e'', ''f'']"
    by (simp add: load_oneSession accepted_a accepted_b accepted_c accepted_d accepted_e accepted_f)
  have one: "acceptedStore sampleParse ''guest-10000'' (loadChatState 1 oneSessionStorage)
      (1, storeTokenRequest ''a'') ''a''"
    by (simp add: load_oneSession accepted_a)
  have empty: "nickTokens oneSessionState = []"
    by (simp add: oneSessionState_def DEFAULT_CHAT_STATE_def)
  have single: "length (userTokens ''guest-10000''
      (obj_set ''a'' (newToken 1 \<lparr> username = ''guest-10000'', displayName = None \<rparr>) [])) = 1"
    by (simp add: obj_set_def userTokens_def newToken_def)
  note claim = storeNickToken_keeps_five_newest [of sampleParse "''guest-10000''" 1 oneSessionStorage
      "[(1, storeTokenRequest ''a''), (2, storeTokenRequest ''b''), (3, storeTokenRequest ''c''),
        (4, storeTokenRequest ''d''), (5, storeTokenRequest ''e''), (6, storeTokenRequest ''f'')]"
      "[''a'', ''b'', ''c'', ''d'', ''e'', ''f'']" alwaysReceives None 7 "storeTokenRequest ''a''" "''a''"]
  have count: "min 5 (card (userKeys ''guest-10000'' (nickTokens (loadChatState 1 oneSessionStorage))
      \<union> set [''a'', ''b'', ''c'', ''d'', ''e'', ''f''])) = 5"
    by (simp add: load_oneSession userKeys_oneSession)
  from six have "list_all2 (acceptedStore sampleParse ''guest-10000'' (loadChatState 1 oneSessionStorage))
      [(1, storeTokenRequest ''a''), (2, storeTokenRequest ''b''), (3, storeTokenRequest ''c''),
       (4, storeTokenRequest ''d''), (5, storeTokenRequest ''e''), (6, storeTokenRequest ''f'')]
      [''a'', ''b'', ''c'', ''d'', ''e'', ''f'']
    \<and> [(1, storeTokenRequest ''a''), (2, storeTokenRequest ''b''), (3, storeTokenRequest ''c''),
       (4, storeTokenRequest ''d''), (5, storeTokenRequest ''e''), (6, storeTokenRequest ''f'')] \<noteq> []
    \<and> ''guest-10000'' \<noteq> []"
    by simp
  from claim [THEN conjunct1, THEN mp, OF this]
  have first: "\<exists>state'. runBatches sampleParse alwaysReceives
        [(1, storeTokenRequest ''a''), (2, storeTokenRequest ''b''), (3, storeTokenRequest ''c''),
         (4, storeTokenRequest ''d''), (5, storeTokenRequest ''e''), (6, storeTokenRequest ''f'')]
        (None, oneSessionStorage) = Some (None, state')
      \<and> length (userTokens ''guest-10000'' (nickTokens (loadChatState 7 state'))) = 5"
    unfolding count .
  from one have "acceptedStore sampleParse ''guest-10000'' (loadChatState 1 oneSessionStorage)
      (1, storeTokenRequest ''a'') ''a'' \<and> ''guest-10000'' \<noteq> []"
    by simp
  from claim [THEN conjunct2, THEN mp, OF this]
  obtain resp state' sessionInfo where
    step: "tryHandleChatBatch sampleParse alwaysReceives 1 (storeTokenRequest ''a'')
        (None, oneSessionStorage) = Some (Some resp, None, state')"
    and call: "storeCall sampleParse (loadChatState 1 oneSessionStorage) (storeTokenRequest ''a'')
        = Some (sessionInfo, ''a'')"
    and len: "length (userTokens ''guest-10000'' (nickTokens (loadChatState 7 state')))
        = min 5 (length (userTokens ''guest-10000''
            (obj_set ''a'' (newToken 1 sessionInfo) (nickTokens (loadChatState 1 oneSessionStorage)))))"
    unfolding Let_def by (elim exE conjE) (rule that)
  from call have "sessionInfo = \<lparr> username = ''guest-10000'', displayName = None \<rparr>"
    by (simp add: load_oneSession storeCall_a)
  with len have "length (userTokens ''guest-10000'' (nickTokens (loadChatState 7 state'))) = 1"
    by (simp add: load_oneSession empty single)
  with step have second: "\<exists>resp state'. tryHandleChatBatch sampleParse alwaysReceives 1
          (storeTokenRequest ''a'') (None, oneSessionStorage) = Some (Some resp, None, state')
      \<and> length (userTokens ''guest-10000'' (nickTokens (loadChatState 7 state'))) = 1"
    by blast
  from six first one second show ?thesis
    by (intro conjI)
qed
end
